theory Spec2Isabelle
  imports Complex_Main
begin

section \<open>The equation scheduler of \<^verbatim>\<open>mods/runner.py\<close>\<close>

text \<open>
  The runner keeps two module-level lists, \<^verbatim>\<open>_active\<close> and \<^verbatim>\<open>_queue\<close>, both
  touched only under \<^verbatim>\<open>_lock\<close>. The scheduler state is the pair of the two lists.
  An equation is any value with an equality: \<^verbatim>\<open>list.remove\<close> compares with \<^verbatim>\<open>==\<close>.
\<close>

record 'a sched =
  active :: "'a list"
  queue :: "'a list"

definition sched_init :: "'a sched" where
  "sched_init = \<lparr>active = [], queue = []\<rparr>"

text \<open>\<^verbatim>\<open>_start_equation\<close>: \<^verbatim>\<open>_active.append(eq)\<close> (the timer it arms is the later
  \<^verbatim>\<open>_finish\<close> step).\<close>

definition start_equation :: "'a \<Rightarrow> 'a sched \<Rightarrow> 'a sched" where
  "start_equation eq s = s\<lparr>active := active s @ [eq]\<rparr>"

text \<open>\<^verbatim>\<open>_maybe_start_or_queue\<close>, taken as one atomic step: the thread it spawns
  runs \<^verbatim>\<open>_start_equation\<close> at once.\<close>

definition maybe_start_or_queue :: "'a \<Rightarrow> 'a sched \<Rightarrow> 'a sched" where
  "maybe_start_or_queue eq s =
     (if length (active s) < 3 then start_equation eq s
      else s\<lparr>queue := queue s @ [eq]\<rparr>)"

text \<open>\<^verbatim>\<open>_finish\<close>, taken as one atomic step. \<^verbatim>\<open>_active.remove(eq)\<close> deletes the first
  occurrence and its \<^verbatim>\<open>ValueError\<close> is swallowed, which is \<^const>\<open>remove1\<close>;
  \<^verbatim>\<open>_queue.pop(0)\<close> is only reached on a non-empty queue.\<close>

definition finish :: "'a \<Rightarrow> 'a sched \<Rightarrow> 'a sched" where
  "finish eq s =
     (let s1 = s\<lparr>active := remove1 eq (active s)\<rparr> in
      case queue s1 of
        [] \<Rightarrow> s1
      | next_eq # rest \<Rightarrow>
          if length (active s1) < 3
          then start_equation next_eq (s1\<lparr>queue := rest\<rparr>)
          else s1)"

datatype 'a event = Submit 'a | Complete 'a

fun sched_step :: "'a sched \<Rightarrow> 'a event \<Rightarrow> 'a sched" where
  "sched_step s (Submit eq) = maybe_start_or_queue eq s"
| "sched_step s (Complete eq) = finish eq s"

definition run_events :: "'a event list \<Rightarrow> 'a sched" where
  "run_events evs = foldl sched_step sched_init evs"

text \<open>The states the scheduler can be observed in: those some sequence of submissions and
  completions leads to from the empty state.\<close>

inductive reachable :: "'a sched \<Rightarrow> bool" where
  reach_init: "reachable sched_init"
| reach_submit: "reachable s \<Longrightarrow> reachable (maybe_start_or_queue eq s)"
| reach_finish: "reachable s \<Longrightarrow> reachable (finish eq s)"

text \<open>
  The same three functions with one step per critical section, which is what \<^verbatim>\<open>_lock\<close>
  makes indivisible. \<^verbatim>\<open>_maybe_start_or_queue\<close> (lines 87 to 93) and the second
  section of \<^verbatim>\<open>_finish\<close> (lines 75 to 78) only spawn the thread of
  \<^verbatim>\<open>_start_equation\<close>; the append to \<^verbatim>\<open>_active\<close> is that thread's own section
  (lines 63 to 64), after which the timer is armed. \<^verbatim>\<open>_finish\<close> leaves the lock
  between the removal (lines 68 to 72) and the promotion test. \<open>t_spawned\<close> holds the
  threads that have not appended yet, \<open>t_timers\<close> the armed timers and \<open>t_finishing\<close> the
  calls of \<^verbatim>\<open>_finish\<close> that are between their two sections.
\<close>

record 'a threads =
  t_sched :: "'a sched"
  t_spawned :: "'a list"
  t_timers :: "'a list"
  t_finishing :: "'a list"

definition threads_init :: "'a threads" where
  "threads_init = \<lparr>t_sched = sched_init, t_spawned = [], t_timers = [], t_finishing = []\<rparr>"

datatype 'a critical = Call 'a | Start 'a | Remove 'a | Promote 'a

text \<open>One critical section; \<open>None\<close> when no thread of the state is at that section.\<close>

fun critical_step :: "'a threads \<Rightarrow> 'a critical \<Rightarrow> 'a threads option" where
  "critical_step s (Call eq) =
     Some (if length (active (t_sched s)) < 3
           then s\<lparr>t_spawned := t_spawned s @ [eq]\<rparr>
           else s\<lparr>t_sched := (t_sched s)\<lparr>queue := queue (t_sched s) @ [eq]\<rparr>\<rparr>)"
| "critical_step s (Start eq) =
     (if eq \<in> set (t_spawned s)
      then Some (s\<lparr>t_sched := start_equation eq (t_sched s),
                    t_spawned := remove1 eq (t_spawned s),
                    t_timers := t_timers s @ [eq]\<rparr>)
      else None)"
| "critical_step s (Remove eq) =
     (if eq \<in> set (t_timers s)
      then Some (s\<lparr>t_sched := (t_sched s)\<lparr>active := remove1 eq (active (t_sched s))\<rparr>,
                    t_timers := remove1 eq (t_timers s),
                    t_finishing := t_finishing s @ [eq]\<rparr>)
      else None)"
| "critical_step s (Promote eq) =
     (if eq \<in> set (t_finishing s)
      then Some (let s1 = s\<lparr>t_finishing := remove1 eq (t_finishing s)\<rparr> in
                 case queue (t_sched s1) of
                   [] \<Rightarrow> s1
                 | next_eq # rest \<Rightarrow>
                     if length (active (t_sched s1)) < 3
                     then s1\<lparr>t_sched := (t_sched s1)\<lparr>queue := rest\<rparr>,
                             t_spawned := t_spawned s1 @ [next_eq]\<rparr>
                     else s1)
      else None)"

fun run_critical :: "'a threads \<Rightarrow> 'a critical list \<Rightarrow> 'a threads option" where
  "run_critical s [] = Some s"
| "run_critical s (a # as) =
     (case critical_step s a of None \<Rightarrow> None | Some s' \<Rightarrow> run_critical s' as)"

section \<open>Python values used by \<^verbatim>\<open>mods/engine.py\<close>\<close>

text \<open>
  Python floats are modelled as reals: the engine's arithmetic is read at infinite
  precision, without NaN, infinities or rounding error. The exceptions the engine can meet
  are values of \<open>error\<close>.
\<close>

datatype error =
  ZeroDivisionError
  | IndexError
  | TypeError
  | SympifyError
  | ValueError "string set"

text \<open>\<^verbatim>\<open>int(r)\<close> on a float truncates toward zero.\<close>

definition py_int :: "real \<Rightarrow> int" where
  "py_int r = (if 0 \<le> r then \<lfloor>r\<rfloor> else \<lceil>r\<rceil>)"

text \<open>\<^verbatim>\<open>round(r)\<close> with one argument rounds to the nearest integer, a tie to the even
  neighbour.\<close>

definition py_round :: "real \<Rightarrow> int" where
  "py_round r =
     (let f = \<lfloor>r\<rfloor>; d = r - of_int f in
      if d < 1/2 then f
      else if 1/2 < d then f + 1
      else if even f then f else f + 1)"

text \<open>Subscription \<^verbatim>\<open>xs[i]\<close> of a list: positions \<open>0\<close> to \<open>len - 1\<close> read
  from the front, positions \<open>-len\<close> to \<open>-1\<close> read from the back, and every other
  position raises \<^verbatim>\<open>IndexError\<close>.\<close>

definition py_index :: "'a list \<Rightarrow> int \<Rightarrow> error + 'a" where
  "py_index xs i =
     (if 0 \<le> i \<and> i < int (length xs) then Inr (xs ! nat i)
      else if i < 0 \<and> - int (length xs) \<le> i then Inr (xs ! nat (int (length xs) + i))
      else Inl IndexError)"

text \<open>\<^verbatim>\<open>str.lower\<close> and \<^verbatim>\<open>str.replace('-', '_')\<close>, on ASCII text.\<close>

definition lower_char :: "char \<Rightarrow> char" where
  "lower_char c =
     (case map_of (zip ''ABCDEFGHIJKLMNOPQRSTUVWXYZ'' ''abcdefghijklmnopqrstuvwxyz'') c of
        Some l \<Rightarrow> l
      | None \<Rightarrow> c)"

definition lower :: "string \<Rightarrow> string" where
  "lower s = map lower_char s"

definition replace_dash :: "string \<Rightarrow> string" where
  "replace_dash s = map (\<lambda>c. if c = CHR ''-'' then CHR ''_'' else c) s"

text \<open>\<^verbatim>\<open>str.strip()\<close> removes the characters \<^verbatim>\<open>str.isspace\<close> accepts at both
  ends; among the ASCII characters these are the codes 9 to 13, 28 to 32.\<close>

definition is_space :: "char \<Rightarrow> bool" where
  "is_space c = ((of_char c :: nat) \<in> {9, 10, 11, 12, 13, 28, 29, 30, 31, 32})"

definition strip :: "string \<Rightarrow> string" where
  "strip s = rev (dropWhile is_space (rev (dropWhile is_space s)))"

section \<open>Scales and the scale mapper\<close>

text \<open>The table of \<^verbatim>\<open>_get_scale_degrees\<close>, in the order of the source.\<close>

definition scales :: "(string \<times> int list) list" where
  "scales =
    [(''major'', [0, 2, 4, 5, 7, 9, 11]),
     (''minor'', [0, 2, 3, 5, 7, 8, 10]),
     (''pentatonic'', [0, 2, 4, 7, 9]),
     (''a_minor'', [0, 2, 3, 5, 7, 8, 10]),
     (''b_minor'', [0, 2, 3, 5, 7, 9, 11]),
     (''c_minor'', [0, 2, 3, 5, 7, 8, 10]),
     (''c_major'', [0, 2, 4, 5, 7, 9, 11]),
     (''d_minor'', [0, 2, 3, 5, 7, 8, 10]),
     (''d_major'', [0, 2, 4, 5, 7, 9, 11]),
     (''e_minor'', [0, 2, 3, 5, 7, 8, 10]),
     (''e_major'', [0, 2, 4, 5, 7, 9, 11]),
     (''f_minor'', [0, 2, 3, 5, 7, 8, 10]),
     (''f_major'', [0, 2, 4, 5, 7, 9, 11]),
     (''g_minor'', [0, 2, 3, 5, 7, 8, 10]),
     (''g_major'', [0, 2, 4, 5, 7, 9, 11])]"

definition get_scale_degrees :: "string \<Rightarrow> int list" where
  "get_scale_degrees name =
     (let key = (if name \<noteq> [] then replace_dash (lower name) else []) in
      case map_of scales key of
        Some degrees \<Rightarrow> degrees
      | None \<Rightarrow> [0, 2, 3, 5, 7, 8, 10])"

text \<open>Lines 272 to 276 of \<^verbatim>\<open>render_config\<close>: the number of steps and the degree index.\<close>

definition total_steps_of :: "int list \<Rightarrow> int \<Rightarrow> int" where
  "total_steps_of scale_degrees octaves =
     (let total_steps = int (length scale_degrees) * octaves in
      if total_steps \<le> 0 then int (length scale_degrees) else total_steps)"

definition deg_index_of :: "real \<Rightarrow> int \<Rightarrow> int" where
  "deg_index_of v_scaled total_steps =
     max 0 (min (total_steps - 1) (py_int (v_scaled * of_int total_steps)))"

text \<open>Lines 280 to 284: the pitch of the voice at degree \<open>d\<close>. \<^verbatim>\<open>%\<close> and \<^verbatim>\<open>//\<close>
  raise on a zero divisor and otherwise round toward minus infinity, as \<open>mod\<close> and
  \<open>div\<close> on \<open>int\<close> do.\<close>

definition voice_pitch :: "int \<Rightarrow> int list \<Rightarrow> int \<Rightarrow> error + int" where
  "voice_pitch base_midi scale_degrees d =
     (if length scale_degrees = 0 then Inl ZeroDivisionError
      else
        let scale_idx = d mod int (length scale_degrees);
            octave_shift = d div int (length scale_degrees)
        in case py_index scale_degrees scale_idx of
             Inl er \<Rightarrow> Inl er
           | Inr degree \<Rightarrow> Inr (max 0 (min 127 (base_midi + degree + 12 * octave_shift))))"

text \<open>Lines 278 to 285: the loop \<^verbatim>\<open>for p in range(poly)\<close> appending to \<^verbatim>\<open>chosen\<close>.\<close>

fun chosen_loop :: "int \<Rightarrow> int list \<Rightarrow> int \<Rightarrow> nat list \<Rightarrow> int list \<Rightarrow> error + int list" where
  "chosen_loop base_midi scale_degrees deg_index [] chosen = Inr chosen"
| "chosen_loop base_midi scale_degrees deg_index (p # ps) chosen =
     (case voice_pitch base_midi scale_degrees (deg_index + int p) of
        Inl er \<Rightarrow> Inl er
      | Inr pitch \<Rightarrow> chosen_loop base_midi scale_degrees deg_index ps (chosen @ [pitch]))"

definition chosen_pitches :: "int \<Rightarrow> int list \<Rightarrow> int \<Rightarrow> int \<Rightarrow> error + int list" where
  "chosen_pitches base_midi scale_degrees deg_index poly =
     chosen_loop base_midi scale_degrees deg_index [0..<nat poly] []"

text \<open>Lines 288 to 291: the velocity. Only the text \<^verbatim>\<open>'exp'\<close> selects the squared
  curve.\<close>

definition velocity_of :: "string \<Rightarrow> real \<Rightarrow> int" where
  "velocity_of vel_curve v_scaled =
     (if vel_curve = ''exp''
      then py_int (max 1 (min 127 (1 + v_scaled ^ 2 * 126)))
      else py_int (max 1 (min 127 (1 + v_scaled * 126))))"

section \<open>The expression library, update rules and limits\<close>

text \<open>
  \<^verbatim>\<open>sympy\<close> is a library outside the repository, so its operations are parameters of
  the model: \<open>sympify\<close> parses a text (\<open>None\<close> when it raises), \<open>free_symbols\<close> lists
  the names of an expression's free symbols, and \<open>lambdify3\<close>, \<open>lambdify4\<close> give the
  numeric functions of \<^verbatim>\<open>(x, y, z)\<close> and \<^verbatim>\<open>(x, y, z, t)\<close>. A compiled function
  is called through \<^verbatim>\<open>float(f(...))\<close>; its result is \<open>None\<close> when that raises.
\<close>

type_synonym fn3 = "real \<Rightarrow> real \<Rightarrow> real \<Rightarrow> real option"
type_synonym fn4 = "real \<Rightarrow> real \<Rightarrow> real \<Rightarrow> real \<Rightarrow> real option"

record 'e sympy =
  sympify :: "string \<Rightarrow> 'e option"
  free_symbols :: "'e \<Rightarrow> string list"
  lambdify3 :: "'e \<Rightarrow> fn3"
  lambdify4 :: "'e \<Rightarrow> fn4"

text \<open>\<^verbatim>\<open>parse_expr\<close> of \<^verbatim>\<open>mods/parser.py\<close>; of its result \<^verbatim>\<open>(fn, meta)\<close> the engine
  keeps the function only.\<close>

definition parse_expr :: "'e sympy \<Rightarrow> string \<Rightarrow> error + fn3" where
  "parse_expr sy expr_text =
     (case sympify sy expr_text of
        None \<Rightarrow> Inl SympifyError
      | Some ex \<Rightarrow>
          let free = set (free_symbols sy ex);
              allowed = {''x'', ''y'', ''z''}
          in if \<not> free \<subseteq> allowed then Inl (ValueError (free - allowed))
             else Inr (lambdify3 sy ex))"

text \<open>\<^verbatim>\<open>upd.split('=', 1)\<close> on a text that holds \<^verbatim>\<open>'='\<close>: the text before the first
  \<^verbatim>\<open>'='\<close> and the text after it.\<close>

definition split_eq :: "string \<Rightarrow> string \<times> string" where
  "split_eq upd =
     (takeWhile (\<lambda>c. c \<noteq> CHR ''='') upd, tl (dropWhile (\<lambda>c. c \<noteq> CHR ''='') upd))"

text \<open>Lines 231 to 239: the loop over \<^verbatim>\<open>updates\<close>, a list of texts. \<open>None\<close> is an
  exception leaving the loop; it comes from \<^verbatim>\<open>sp.sympify(right)\<close>, the call of the loop
  that rejects a text (\<^verbatim>\<open>sp.lambdify\<close> compiles every expression it is given).\<close>

fun update_loop ::
  "'e sympy \<Rightarrow> string list \<Rightarrow> (string \<times> fn4) list \<Rightarrow> (string \<times> fn4) list option" where
  "update_loop sy [] update_fns = Some update_fns"
| "update_loop sy (upd # rest) update_fns =
     (if CHR ''='' \<notin> set upd then update_loop sy rest update_fns
      else
        let left = strip (fst (split_eq upd)); right = strip (snd (split_eq upd)) in
        if left \<notin> {''x'', ''y'', ''z''} then update_loop sy rest update_fns
        else case sympify sy right of
               None \<Rightarrow> None
             | Some expr_rhs \<Rightarrow>
                 update_loop sy rest (update_fns @ [(left, lambdify4 sy expr_rhs)]))"

text \<open>Lines 228 to 241: the \<^verbatim>\<open>try\<close> around the loop; its handler sets
  \<^verbatim>\<open>update_fns = []\<close>.\<close>

definition prepare_updates :: "'e sympy \<Rightarrow> string list \<Rightarrow> (string \<times> fn4) list" where
  "prepare_updates sy updates =
     (case update_loop sy updates [] of
        None \<Rightarrow> []
      | Some update_fns \<Rightarrow> update_fns)"

text \<open>The variable state \<^verbatim>\<open>vars_local\<close> is a dictionary from names to floats;
  \<^verbatim>\<open>vars_local.get(k, 0.0)\<close> reads it.\<close>

type_synonym vars = "string \<Rightarrow> real option"

definition var_get :: "vars \<Rightarrow> string \<Rightarrow> real" where
  "var_get vs k = (case vs k of None \<Rightarrow> 0 | Some v \<Rightarrow> v)"

text \<open>Lines 306 to 311: the update rules of one step; a rule whose call raises is
  passed over.\<close>

fun apply_updates :: "(string \<times> fn4) list \<Rightarrow> real \<Rightarrow> vars \<Rightarrow> vars" where
  "apply_updates [] t vs = vs"
| "apply_updates ((varname, f_rhs) # rest) t vs =
     (case f_rhs (var_get vs ''x'') (var_get vs ''y'') (var_get vs ''z'') t of
        Some newval \<Rightarrow> apply_updates rest t (vs(varname \<mapsto> newval))
      | None \<Rightarrow> apply_updates rest t vs)"

text \<open>A limit is a list of configuration values: \<open>Num\<close> is a value \<^verbatim>\<open>float()\<close>
  converts, \<open>NotNum\<close> one it rejects (such as \<^verbatim>\<open>None\<close>).\<close>

datatype pyval = Num real | NotNum

definition py_float :: "pyval \<Rightarrow> error + real" where
  "py_float v = (case v of Num r \<Rightarrow> Inr r | NotNum \<Rightarrow> Inl TypeError)"

text \<open>Lines 316 to 319: the body of the \<^verbatim>\<open>try\<close> for one limit.\<close>

definition apply_limit :: "string \<Rightarrow> pyval list \<Rightarrow> vars \<Rightarrow> error + vars" where
  "apply_limit varname limit vs =
     (case py_index limit 0 of Inl er \<Rightarrow> Inl er | Inr v0 \<Rightarrow>
      case py_float v0 of Inl er \<Rightarrow> Inl er | Inr threshold \<Rightarrow>
      case py_index limit 1 of Inl er \<Rightarrow> Inl er | Inr v1 \<Rightarrow>
      case py_float v1 of Inl er \<Rightarrow> Inl er | Inr reset_to \<Rightarrow>
        Inr (if threshold \<le> var_get vs varname then vs(varname \<mapsto> reset_to) else vs))"

text \<open>Lines 314 to 321: the loop over \<^verbatim>\<open>limits.items()\<close>, in the dictionary's order;
  a limit whose body raises is passed over.\<close>

fun apply_limits :: "(string \<times> pyval list) list \<Rightarrow> vars \<Rightarrow> vars" where
  "apply_limits [] vs = vs"
| "apply_limits ((varname, limit) # rest) vs =
     (case apply_limit varname limit vs of
        Inl er \<Rightarrow> apply_limits rest vs
      | Inr vs' \<Rightarrow> apply_limits rest vs')"

section \<open>The stepping loop and \<^verbatim>\<open>render_config\<close>\<close>

text \<open>\<^verbatim>\<open>_quantize_time\<close>; the division raises when the grid is zero.\<close>

definition quantize_time :: "real \<Rightarrow> real \<Rightarrow> real \<Rightarrow> error + real" where
  "quantize_time t quant beat_seconds =
     (if quant \<le> 0 then Inr t
      else
        let grid = beat_seconds * quant in
        if grid = 0 then Inl ZeroDivisionError
        else Inr (of_int (py_round (t / grid)) * grid))"

text \<open>Lines 198 to 200: the step length from the beat and the parsed rate \<^verbatim>\<open>frac\<close> (here \<open>fraction\<close>).\<close>

definition dt_of :: "real \<Rightarrow> real \<Rightarrow> real" where
  "dt_of beat_seconds fraction =
     (let dt = beat_seconds * fraction in if dt \<le> 0 then beat_seconds * 0.125 else dt)"

text \<open>Lines 255 to 261: the value of the expression at the variable state, then at
  \<^verbatim>\<open>(t, t, t)\<close>, then \<^verbatim>\<open>0.0\<close>.\<close>

definition evaluate :: "fn3 \<Rightarrow> vars \<Rightarrow> real \<Rightarrow> real" where
  "evaluate fn vs t =
     (case fn (var_get vs ''x'') (var_get vs ''y'') (var_get vs ''z'') of
        Some v \<Rightarrow> v
      | None \<Rightarrow> (case fn t t t of Some v \<Rightarrow> v | None \<Rightarrow> 0))"

record note_event =
  n_velocity :: int
  n_pitch :: int
  n_start :: real
  n_end :: real

record instrument =
  i_program :: int
  i_name :: string
  i_notes :: "note_event list"

text \<open>The local variables of \<^verbatim>\<open>render_config\<close> that the stepping loop reads and
  never assigns.\<close>

record ctx =
  c_fn :: fn3
  c_update_fns :: "(string \<times> fn4) list"
  c_limits :: "(string \<times> pyval list) list"
  c_end_t :: real
  c_dt :: real
  c_beat_seconds :: real
  c_base_midi :: int
  c_scale_degrees :: "int list"
  c_octaves :: int
  c_poly :: int
  c_rhythm_quant :: real
  c_vel_curve :: string

text \<open>Lines 254 to 321: one pass of the loop body at time \<open>t\<close> on the variable state
  \<open>vs\<close>: the notes it appends and the variable state it leaves. Every raise of the body
  that no handler catches is an \<open>Inl\<close>; it comes before the first write of the pass.\<close>

definition step :: "ctx \<Rightarrow> vars \<Rightarrow> real \<Rightarrow> error + (note_event list \<times> vars)" where
  "step c vs t =
     (let v = evaluate (c_fn c) vs t;
          v_norm = tanh v;
          v_scaled = (v_norm + 1) / 2;
          total_steps = total_steps_of (c_scale_degrees c) (c_octaves c);
          deg_index = deg_index_of v_scaled total_steps
      in
      case chosen_pitches (c_base_midi c) (c_scale_degrees c) deg_index (c_poly c) of
        Inl er \<Rightarrow> Inl er
      | Inr chosen \<Rightarrow>
      let vel = velocity_of (c_vel_curve c) v_scaled in
      case quantize_time t (c_rhythm_quant c) (c_beat_seconds c) of
        Inl er \<Rightarrow> Inl er
      | Inr start_q \<Rightarrow>
      case quantize_time (min (c_end_t c) (t + c_dt c)) (c_rhythm_quant c) (c_beat_seconds c) of
        Inl er \<Rightarrow> Inl er
      | Inr end_q0 \<Rightarrow>
      let end_q = (if end_q0 \<le> start_q then start_q + max 0.01 (c_dt c) else end_q0);
          notes = map (\<lambda>pitch. \<lparr>n_velocity = vel, n_pitch = pitch,
                                  n_start = start_q, n_end = end_q\<rparr>) chosen;
          vs1 = (if c_update_fns c \<noteq> [] then apply_updates (c_update_fns c) t vs else vs);
          vs2 = apply_limits (c_limits c) vs1
      in Inr (notes, vs2))"

text \<open>
  Dictionaries live in a store: an address names one dictionary object, and two
  variables holding the same address are the same object. \<open>next_addr\<close> is the first
  address not yet given out.
\<close>

record store =
  objs :: "nat \<Rightarrow> vars"
  next_addr :: nat

definition alloc :: "vars \<Rightarrow> store \<Rightarrow> nat \<times> store" where
  "alloc d s = (next_addr s, \<lparr>objs = (objs s)(next_addr s := d), next_addr = Suc (next_addr s)\<rparr>)"

text \<open>\<^verbatim>\<open>d[k] = v\<close> and the other writes of a pass, on the object at address \<open>a\<close>.\<close>

definition store_write :: "nat \<Rightarrow> vars \<Rightarrow> store \<Rightarrow> store" where
  "store_write a d s = s\<lparr>objs := (objs s)(a := d)\<rparr>"

text \<open>Lines 253 to 323: \<^verbatim>\<open>while t <= end_t + 1e-9\<close>, with \<^verbatim>\<open>vars_local\<close> the object at
  address \<open>a\<close> and \<open>notes\<close> the list \<^verbatim>\<open>instrument.notes\<close>. The result is \<open>None\<close> when
  the loop never ends.\<close>

partial_function (option) stepping_loop ::
  "ctx \<Rightarrow> store \<Rightarrow> nat \<Rightarrow> real \<Rightarrow> note_event list \<Rightarrow> (store \<times> (error + note_event list)) option" where
  "stepping_loop c s a t notes =
     (if t \<le> c_end_t c + 1 / 10 ^ 9 then
        (case step c (objs s a) t of
           Inl er \<Rightarrow> Some (s, Inl er)
         | Inr (new_notes, vs') \<Rightarrow>
             stepping_loop c (store_write a vs' s) a (t + c_dt c) (notes @ new_notes))
      else Some (s, Inr notes))"

text \<open>The local variables of one pass of the loop over the equations, as lines 163 to 222
  read them from the equation's dictionary. \<open>eq_vars\<close> is the address of the dictionary
  under \<^verbatim>\<open>'vars'\<close>, \<open>eq_frac\<close> the parsed \<^verbatim>\<open>eval_rate\<close>.\<close>

record equation =
  eq_name :: string
  eq_expr :: string
  eq_vars :: nat
  eq_updates :: "string list"
  eq_frac :: real
  eq_start_t :: real
  eq_end_t :: real
  eq_base_midi :: int
  eq_scale_name :: string
  eq_octaves :: int
  eq_poly :: int
  eq_rhythm_quant :: real
  eq_vel_curve :: string
  eq_limits :: "(string \<times> pyval list) list"
  eq_instr_name :: string

text \<open>What \<^verbatim>\<open>render_config\<close> has built so far: the store and \<^verbatim>\<open>pm.instruments\<close>.\<close>

record pm_state =
  heap :: store
  instruments :: "instrument list"

datatype outcome = Raised error pm_state | Returned pm_state

text \<open>The values the loop of one equation runs on: the compiled expression and
  rules, the step length of lines 198 to 200, the scale of line 205 and the mapping
  options.\<close>

definition loop_ctx ::
  "fn3 \<Rightarrow> (string \<times> fn4) list \<Rightarrow> real \<Rightarrow> equation \<Rightarrow> ctx" where
  "loop_ctx fn update_fns beat_seconds e =
     \<lparr>c_fn = fn, c_update_fns = update_fns, c_limits = eq_limits e,
      c_end_t = eq_end_t e, c_dt = dt_of beat_seconds (eq_frac e),
      c_beat_seconds = beat_seconds, c_base_midi = eq_base_midi e,
      c_scale_degrees = get_scale_degrees (eq_scale_name e),
      c_octaves = eq_octaves e, c_poly = eq_poly e,
      c_rhythm_quant = eq_rhythm_quant e, c_vel_curve = eq_vel_curve e\<rparr>"

text \<open>Lines 198 to 325: the body of the loop over the equations from the step length to
  \<^verbatim>\<open>pm.instruments.append(instrument)\<close>. \<^verbatim>\<open>parse_expr\<close> is the first call that can
  raise; \<^verbatim>\<open>vars_local\<close> is a new dictionary holding the entries of the equation's
  \<^verbatim>\<open>vars\<close>.\<close>

definition render_equation ::
  "'e sympy \<Rightarrow> real \<Rightarrow> equation \<Rightarrow> pm_state \<Rightarrow> outcome option" where
  "render_equation sy beat_seconds e st =
     (case parse_expr sy (eq_expr e) of
        Inl er \<Rightarrow> Some (Raised er st)
      | Inr fn \<Rightarrow>
      let update_fns = prepare_updates sy (eq_updates e);
          program = (if lower (eq_instr_name e) = ''piano'' then 0 else 80);
          (vars_local, s1) = alloc (objs (heap st) (eq_vars e)) (heap st);
          c = loop_ctx fn update_fns beat_seconds e
      in
      case stepping_loop c s1 vars_local (eq_start_t e) [] of
        None \<Rightarrow> None
      | Some (s2, Inl er) \<Rightarrow> Some (Raised er (st\<lparr>heap := s2\<rparr>))
      | Some (s2, Inr notes) \<Rightarrow>
          Some (Returned \<lparr>heap = s2,
            instruments = instruments st
              @ [\<lparr>i_program = program, i_name = eq_name e, i_notes = notes\<rparr>]\<rparr>))"

text \<open>Lines 162 to 325: the loop over the equations; an exception ends it.\<close>

fun render_equations ::
  "'e sympy \<Rightarrow> real \<Rightarrow> equation list \<Rightarrow> pm_state \<Rightarrow> outcome option" where
  "render_equations sy beat_seconds [] st = Some (Returned st)"
| "render_equations sy beat_seconds (e # es) st =
     (case render_equation sy beat_seconds e st of
        None \<Rightarrow> None
      | Some (Raised er st') \<Rightarrow> Some (Raised er st')
      | Some (Returned st') \<Rightarrow> render_equations sy beat_seconds es st')"

record config =
  cfg_tempo :: real
  cfg_equations :: "equation list"

text \<open>\<^verbatim>\<open>render_config\<close> up to line 325, on the store \<open>s\<close> that holds the
  configuration's dictionaries: the tracks it hands to the writers of the MIDI file.\<close>

definition render_config :: "'e sympy \<Rightarrow> config \<Rightarrow> store \<Rightarrow> outcome option" where
  "render_config sy cfg s =
     (if cfg_tempo cfg = 0 then Some (Raised ZeroDivisionError \<lparr>heap = s, instruments = []\<rparr>)
      else render_equations sy (60 / cfg_tempo cfg) (cfg_equations cfg)
             \<lparr>heap = s, instruments = []\<rparr>)"

section \<open>Predicates used in the statements\<close>

text \<open>A scale as the table holds them: not empty, strictly increasing, within one octave.\<close>

definition good_scale :: "int list \<Rightarrow> bool" where
  "good_scale ds = (ds \<noteq> [] \<and> sorted_wrt (<) ds \<and> list_all (\<lambda>x. 0 \<le> x \<and> x \<le> 11) ds)"

text \<open>The two sides of an update rule as lines 234 reads them, and the rules that pass
  the two \<^verbatim>\<open>continue\<close> tests of lines 232 to 236.\<close>

definition rule_left :: "string \<Rightarrow> string" where
  "rule_left upd = strip (fst (split_eq upd))"

definition rule_right :: "string \<Rightarrow> string" where
  "rule_right upd = strip (snd (split_eq upd))"

definition rule_kept :: "string \<Rightarrow> bool" where
  "rule_kept upd = (CHR ''='' \<in> set upd \<and> rule_left upd \<in> {''x'', ''y'', ''z''})"


text \<open>The normalised value and the degree index of a pass, lines 256 to 276.\<close>

definition step_v_scaled :: "ctx \<Rightarrow> vars \<Rightarrow> real \<Rightarrow> real" where
  "step_v_scaled c vs t = (tanh (evaluate (c_fn c) vs t) + 1) / 2"

definition step_deg_index :: "ctx \<Rightarrow> vars \<Rightarrow> real \<Rightarrow> int" where
  "step_deg_index c vs t =
     deg_index_of (step_v_scaled c vs t) (total_steps_of (c_scale_degrees c) (c_octaves c))"

text \<open>The state an outcome carries, raised or returned.\<close>

definition outcome_state :: "outcome \<Rightarrow> pm_state" where
  "outcome_state out = (case out of Raised er st \<Rightarrow> st | Returned st \<Rightarrow> st)"

text \<open>The exception an outcome carries, if any.\<close>

definition outcome_error :: "outcome \<Rightarrow> error option" where
  "outcome_error out = (case out of Raised er st \<Rightarrow> Some er | Returned st \<Rightarrow> None)"

text \<open>Every note of every track satisfies \<open>Q\<close>.\<close>

definition all_notes :: "(note_event \<Rightarrow> bool) \<Rightarrow> pm_state \<Rightarrow> bool" where
  "all_notes Q st = list_all (\<lambda>i. list_all Q (i_notes i)) (instruments st)"

section \<open>A small expression library for concrete runs\<close>

text \<open>
  To run the model on concrete configurations the library parameter is instantiated with
  sums and products of numbers and symbols. \<open>demo_sympy\<close> reads the expression texts of
  its table, each as \<^verbatim>\<open>sympy\<close> reads it, and rejects every other text; the one rejected
  text the concrete runs use, \<^verbatim>\<open>'x +'\<close>, is rejected by \<^verbatim>\<open>sympy\<close> as well. Calling a
  compiled function whose expression has a symbol that is not an argument raises.
\<close>

datatype sexpr = Const real | Sym string | Add sexpr sexpr | Mul sexpr sexpr

fun sexpr_symbols :: "sexpr \<Rightarrow> string list" where
  "sexpr_symbols (Const r) = []"
| "sexpr_symbols (Sym n) = [n]"
| "sexpr_symbols (Add a b) = sexpr_symbols a @ sexpr_symbols b"
| "sexpr_symbols (Mul a b) = sexpr_symbols a @ sexpr_symbols b"

fun sexpr_eval :: "(string \<times> real) list \<Rightarrow> sexpr \<Rightarrow> real option" where
  "sexpr_eval env (Const r) = Some r"
| "sexpr_eval env (Sym n) = map_of env n"
| "sexpr_eval env (Add a b) =
     (case sexpr_eval env a of
        None \<Rightarrow> None
      | Some u \<Rightarrow> (case sexpr_eval env b of None \<Rightarrow> None | Some w \<Rightarrow> Some (u + w)))"
| "sexpr_eval env (Mul a b) =
     (case sexpr_eval env a of
        None \<Rightarrow> None
      | Some u \<Rightarrow> (case sexpr_eval env b of None \<Rightarrow> None | Some w \<Rightarrow> Some (u * w)))"

definition demo_table :: "(string \<times> sexpr) list" where
  "demo_table =
    [(''0'', Const 0),
     (''x'', Sym ''x''),
     (''y'', Sym ''y''),
     (''w'', Sym ''w''),
     (''x + 1'', Add (Sym ''x'') (Const 1)),
     (''y + 1'', Add (Sym ''y'') (Const 1)),
     (''x + w'', Add (Sym ''x'') (Sym ''w'')),
     (''2*z'', Mul (Const 2) (Sym ''z''))]"

definition demo_sympy :: "sexpr sympy" where
  "demo_sympy =
    \<lparr>sympify = map_of demo_table,
     free_symbols = (\<lambda>ex. remdups (sexpr_symbols ex)),
     lambdify3 = (\<lambda>ex x y z. sexpr_eval [(''x'', x), (''y'', y), (''z'', z)] ex),
     lambdify4 = (\<lambda>ex x y z t. sexpr_eval [(''x'', x), (''y'', y), (''z'', z), (''t'', t)] ex)\<rparr>"

text \<open>A concrete equation, with the defaults of the source for the mapping, and a store
  whose only dictionary, at address 0, is the equation's \<^verbatim>\<open>vars\<close>.\<close>

definition demo_eq :: equation where
  "demo_eq =
    \<lparr>eq_name = ''eq1'', eq_expr = ''0'', eq_vars = 0,
     eq_updates = [''x = x + 1'', ''y = x''], eq_frac = 1/8,
     eq_start_t = 0, eq_end_t = 0,
     eq_base_midi = 60, eq_scale_name = ''a_minor'', eq_octaves = 2, eq_poly = 2,
     eq_rhythm_quant = 1/16, eq_vel_curve = ''linear'',
     eq_limits = [], eq_instr_name = ''piano''\<rparr>"

definition demo_store :: store where
  "demo_store = \<lparr>objs = (\<lambda>a. [''x'' \<mapsto> 1, ''y'' \<mapsto> 0, ''z'' \<mapsto> 0]), next_addr = 1\<rparr>"

text \<open>Two concrete configurations at 60 beats per minute: the equation alone, and the
  equation followed by one whose expression has the free symbol \<open>w\<close>.\<close>

definition demo_config :: config where
  "demo_config = \<lparr>cfg_tempo = 60, cfg_equations = [demo_eq]\<rparr>"


section \<open>Scheduler: capacity\<close>

lemma length_remove1_le: "length (remove1 x xs) \<le> length xs"
  by (induction xs) auto

lemma start_equation_simps:
  "active (start_equation eq s) = active s @ [eq]"
  "queue (start_equation eq s) = queue s"
  by (simp_all add: start_equation_def)

lemma maybe_start_or_queue_cap:
  "length (active s) \<le> 3 \<Longrightarrow> length (active (maybe_start_or_queue eq s)) \<le> 3"
  by (simp add: maybe_start_or_queue_def start_equation_def)

lemma finish_cap:
  assumes "length (active s) \<le> 3"
  shows "length (active (finish eq s)) \<le> 3"
proof -
  have "length (remove1 eq (active s)) \<le> 3"
    using assms length_remove1_le [of eq "active s"] by linarith
  then show ?thesis
    by (auto simp: finish_def Let_def start_equation_def split: list.splits)
qed

lemma reachable_cap: "reachable s \<Longrightarrow> length (active s) \<le> 3"
proof (induction rule: reachable.induct)
  case reach_init
  show ?case by (simp add: sched_init_def)
next
  case (reach_submit s eq)
  then show ?case by (simp add: maybe_start_or_queue_cap)
next
  case (reach_finish s eq)
  then show ?case by (simp add: finish_cap)
qed

text \<open>
  Claim C5. With submit (\<^const>\<open>maybe_start_or_queue\<close>) and onComplete (\<^const>\<open>finish\<close>)
  as atomic steps from the empty state, every reachable state has at most 3 active
  equations; a submission is admitted to the active list exactly when fewer than 3 are
  active, and is otherwise appended to the tail of the queue, the active list untouched.
\<close>

theorem scheduler_capacity:
  assumes "reachable s"
  shows "length (active s) \<le> 3
    \<and> maybe_start_or_queue eq s =
        (if length (active s) < 3 then s\<lparr>active := active s @ [eq]\<rparr>
         else s\<lparr>queue := queue s @ [eq]\<rparr>)
    \<and> length (active (maybe_start_or_queue eq s)) \<le> 3"
  using assms
  by (simp add: reachable_cap maybe_start_or_queue_cap maybe_start_or_queue_def
      start_equation_def)

theorem scheduler_capacity_witness:
  "reachable (run_events [Submit (1::nat), Submit 2, Submit 3, Submit 4])
   \<and> run_events [Submit (1::nat), Submit 2, Submit 3, Submit 4]
       = \<lparr>active = [1, 2, 3], queue = [4]\<rparr>
   \<and> length (active (run_events [Submit (1::nat), Submit 2, Submit 3, Submit 4])) \<le> 3
   \<and> maybe_start_or_queue 5 (run_events [Submit (1::nat), Submit 2, Submit 3, Submit 4])
       = \<lparr>active = [1, 2, 3], queue = [4, 5]\<rparr>"
proof -
  let ?s = "run_events [Submit (1::nat), Submit 2, Submit 3, Submit 4]"
  have r: "reachable ?s"
    unfolding run_events_def foldl.simps sched_step.simps
    by (intro reachable.intros)
  have v: "?s = \<lparr>active = [1, 2, 3], queue = [4]\<rparr>"
    by (simp add: run_events_def sched_init_def maybe_start_or_queue_def start_equation_def)
  from scheduler_capacity [OF r, of 5] r v show ?thesis
    by simp
qed

section \<open>Scheduler: promotion from the queue\<close>

text \<open>
  Claim C6. Promotion is not first in, first out once the critical sections interleave.
  Equations 1, 2, 3 are active and 4 is queued. (a) The timer of 1 removes it; before
  that call of \<^verbatim>\<open>_finish\<close> takes the lock again, 5 is submitted, finds two active
  equations and is started; the promotion test then sees three active equations and
  leaves 4 on the queue: the completion admitted 5, submitted after 4, and not the head of
  the queue. (b) With 4 and 5 queued, the completions of 1 and 2 pop 4 and then 5, and the
  thread started for 5 appends before the thread started for 4: the active list receives
  the queued equations as 5, 4.
\<close>

theorem promotion_not_fifo:
  "run_critical threads_init
     [Call (1::nat), Start 1, Call 2, Start 2, Call 3, Start 3, Call 4,
      Remove 1, Call 5, Start 5, Promote 1]
     = Some \<lparr>t_sched = \<lparr>active = [2, 3, 5], queue = [4]\<rparr>,
             t_spawned = [], t_timers = [2, 3, 5], t_finishing = []\<rparr>
   \<and> run_critical threads_init
     [Call (1::nat), Start 1, Call 2, Start 2, Call 3, Start 3, Call 4, Call 5,
      Remove 1, Promote 1, Remove 2, Promote 2, Start 5, Start 4]
     = Some \<lparr>t_sched = \<lparr>active = [3, 5, 4], queue = []\<rparr>,
             t_spawned = [], t_timers = [3, 5, 4], t_finishing = []\<rparr>"
  by (simp add: threads_init_def sched_init_def start_equation_def)

section \<open>The scale mapper\<close>

lemma scales_good: "list_all (\<lambda>(k, ds). good_scale ds) scales"
  by (simp add: scales_def good_scale_def)

lemma get_scale_degrees_good: "good_scale (get_scale_degrees name)"
proof -
  have m: "good_scale [0, 2, 3, 5, 7, 8, 10]" by (simp add: good_scale_def)
  show ?thesis
  proof (cases "map_of scales (if name \<noteq> [] then replace_dash (lower name) else [])")
    case None
    then show ?thesis using m by (simp add: get_scale_degrees_def)
  next
    case (Some ds)
    then have "(if name \<noteq> [] then replace_dash (lower name) else [], ds) \<in> set scales"
      by (rule map_of_SomeD)
    then have "good_scale ds" using scales_good by (auto simp: list_all_iff)
    then show ?thesis using Some by (simp add: get_scale_degrees_def)
  qed
qed

lemma py_int_nonneg: "0 \<le> r \<Longrightarrow> py_int r = \<lfloor>r\<rfloor>"
  by (simp add: py_int_def)

lemma total_steps_pos: "ds \<noteq> [] \<Longrightarrow> 0 < total_steps_of ds octaves"
  by (auto simp: total_steps_of_def Let_def)

lemma deg_index_bounds:
  "0 < ts \<Longrightarrow> 0 \<le> deg_index_of v ts \<and> deg_index_of v ts \<le> ts - 1"
  by (simp add: deg_index_of_def)

lemma voice_pitch_ok:
  assumes "ds \<noteq> []"
  shows "voice_pitch base ds d
    = Inr (max 0 (min 127 (base + ds ! nat (d mod int (length ds)) + 12 * (d div int (length ds)))))"
proof -
  have l: "0 < int (length ds)" using assms by simp
  have "0 \<le> d mod int (length ds)" "d mod int (length ds) < int (length ds)"
    using l by simp_all
  then show ?thesis using assms l
    by (simp add: voice_pitch_def py_index_def Let_def not_less [symmetric])
qed

lemma chosen_loop_ok:
  assumes "ds \<noteq> []"
  shows "chosen_loop base ds di ps acc
    = Inr (acc @ map (\<lambda>p. max 0 (min 127 (base + ds ! nat ((di + int p) mod int (length ds))
         + 12 * ((di + int p) div int (length ds))))) ps)"
  using assms by (induction ps arbitrary: acc) (simp_all add: voice_pitch_ok)

lemma chosen_pitches_ok:
  assumes "ds \<noteq> []"
  shows "chosen_pitches base ds di poly
    = Inr (map (\<lambda>p. max 0 (min 127 (base + ds ! nat ((di + int p) mod int (length ds))
         + 12 * ((di + int p) div int (length ds))))) [0..<nat poly])"
  using chosen_loop_ok [OF assms, of base di "[0..<nat poly]" "[]"]
  by (simp add: chosen_pitches_def)

text \<open>
  Claim C7. For a normalised value in [0, 1], whatever the scale name, octave range, base
  pitch and polyphony: the number of steps is the scale length times the octave range, or
  the scale length when that product is not positive; the degree index is the floor of
  the value times the number of steps, clamped into [0, steps - 1]; and the voices are
  computed without error, one pitch per voice, each pitch within [0, 127].
\<close>

theorem scale_mapper_range:
  assumes "0 \<le> v_scaled" and "v_scaled \<le> 1"
  shows "total_steps_of (get_scale_degrees scale_name) octaves
       = (if int (length (get_scale_degrees scale_name)) * octaves \<le> 0
          then int (length (get_scale_degrees scale_name))
          else int (length (get_scale_degrees scale_name)) * octaves)
   \<and> deg_index_of v_scaled (total_steps_of (get_scale_degrees scale_name) octaves)
       = max 0 (min (total_steps_of (get_scale_degrees scale_name) octaves - 1)
           \<lfloor>v_scaled * of_int (total_steps_of (get_scale_degrees scale_name) octaves)\<rfloor>)
   \<and> 0 \<le> deg_index_of v_scaled (total_steps_of (get_scale_degrees scale_name) octaves)
   \<and> deg_index_of v_scaled (total_steps_of (get_scale_degrees scale_name) octaves)
       \<le> total_steps_of (get_scale_degrees scale_name) octaves - 1
   \<and> (\<exists>chosen.
        chosen_pitches base_midi (get_scale_degrees scale_name)
          (deg_index_of v_scaled (total_steps_of (get_scale_degrees scale_name) octaves)) poly
          = Inr chosen
        \<and> length chosen = nat poly
        \<and> (\<forall>pitch \<in> set chosen. 0 \<le> pitch \<and> pitch \<le> 127))"
proof -
  let ?ds = "get_scale_degrees scale_name"
  let ?ts = "total_steps_of ?ds octaves"
  have ne: "?ds \<noteq> []" using get_scale_degrees_good [of scale_name] by (simp add: good_scale_def)
  have pos: "0 < ?ts" using ne by (rule total_steps_pos)
  have "0 \<le> v_scaled * of_int ?ts" using assms(1) pos by simp
  then have fl: "py_int (v_scaled * of_int ?ts) = \<lfloor>v_scaled * of_int ?ts\<rfloor>"
    by (rule py_int_nonneg)
  have a: "?ts = (if int (length ?ds) * octaves \<le> 0 then int (length ?ds)
                  else int (length ?ds) * octaves)"
    by (simp add: total_steps_of_def Let_def)
  have b: "deg_index_of v_scaled ?ts = max 0 (min (?ts - 1) \<lfloor>v_scaled * of_int ?ts\<rfloor>)"
    using fl by (simp add: deg_index_of_def)
  have c: "0 \<le> deg_index_of v_scaled ?ts \<and> deg_index_of v_scaled ?ts \<le> ?ts - 1"
    using pos by (rule deg_index_bounds)
  have d: "\<exists>chosen. chosen_pitches base_midi ?ds (deg_index_of v_scaled ?ts) poly = Inr chosen
        \<and> length chosen = nat poly \<and> (\<forall>pitch \<in> set chosen. 0 \<le> pitch \<and> pitch \<le> 127)"
    unfolding chosen_pitches_ok [OF ne] by auto
  from a b c d show ?thesis by blast
qed

theorem scale_mapper_range_witness:
  "(0::real) \<le> 1/2 \<and> (1/2::real) \<le> 1
   \<and> get_scale_degrees ''A_minor'' = [0, 2, 3, 5, 7, 8, 10]
   \<and> total_steps_of (get_scale_degrees ''A_minor'') 2 = 14
   \<and> deg_index_of (1/2) (total_steps_of (get_scale_degrees ''A_minor'') 2) = 7
   \<and> chosen_pitches 60 (get_scale_degrees ''A_minor'')
        (deg_index_of (1/2) (total_steps_of (get_scale_degrees ''A_minor'') 2)) 2 = Inr [72, 74]"
proof -
  have s: "get_scale_degrees ''A_minor'' = [0, 2, 3, 5, 7, 8, 10]"
    by (simp add: get_scale_degrees_def scales_def lower_def lower_char_def replace_dash_def)
  have t: "total_steps_of [0, 2, 3, 5, 7, 8, 10] 2 = 14"
    by (simp add: total_steps_of_def)
  have d: "deg_index_of (1/2) 14 = 7"
    by (simp add: deg_index_of_def py_int_def)
  have c: "chosen_pitches 60 [0, 2, 3, 5, 7, 8, 10] 7 2 = Inr [72, 74]"
    by (simp add: chosen_pitches_def voice_pitch_def py_index_def numeral_2_eq_2)
  from scale_mapper_range [of "1/2" "''A_minor''" 2 60 2] s t d c show ?thesis
    by simp
qed

section \<open>The velocity curve\<close>

lemma velocity_clamped:
  "1 \<le> velocity_of vel_curve v \<and> velocity_of vel_curve v \<le> 127"
  by (simp add: velocity_of_def py_int_def le_floor_iff floor_le_iff min_def max_def)

text \<open>
  Claim C4, as the code has it. For a normalised value in [0, 1] the velocity is the
  clamp of 1 + 126 v into [1, 127] truncated to an integer when the curve is \<^verbatim>\<open>'linear'\<close>,
  and the truncated clamp of 1 + 126 v v when the curve is \<^verbatim>\<open>'exp'\<close>; every other curve
  name, \<^verbatim>\<open>'exponential'\<close> among them, takes the linear formula. The velocity always
  lies in [1, 127].
\<close>

theorem velocity_curve:
  assumes "0 \<le> v_scaled" and "v_scaled \<le> 1"
  shows "velocity_of ''linear'' v_scaled = \<lfloor>max 1 (min 127 (1 + v_scaled * 126))\<rfloor>
   \<and> velocity_of ''exp'' v_scaled = \<lfloor>max 1 (min 127 (1 + v_scaled ^ 2 * 126))\<rfloor>
   \<and> (vel_curve \<noteq> ''exp'' \<longrightarrow>
         velocity_of vel_curve v_scaled = \<lfloor>max 1 (min 127 (1 + v_scaled * 126))\<rfloor>)
   \<and> 1 \<le> velocity_of vel_curve v_scaled \<and> velocity_of vel_curve v_scaled \<le> 127"
  using velocity_clamped [of vel_curve v_scaled]
  by (simp add: velocity_of_def py_int_def)

theorem velocity_curve_witness:
  "(0::real) \<le> 1/2 \<and> (1/2::real) \<le> 1
   \<and> velocity_of ''linear'' (1/2) = 64
   \<and> velocity_of ''exp'' (1/2) = 32
   \<and> velocity_of ''exponential'' (1/2) = 64"
proof -
  have f: "\<lfloor>65 / 2 :: real\<rfloor> = 32" by simp
  from velocity_curve [of "1/2" "''exponential''"] f show ?thesis
    by (simp add: power2_eq_square)
qed

text \<open>The claim as written fails for the curve name \<^verbatim>\<open>'exponential'\<close>: at 1/2 the code
  emits 64, while the clamp of 1 + 126 / 4 is 32.5, which no rounding takes to 64.\<close>

theorem velocity_exponential_counterexample:
  "velocity_of ''exponential'' (1/2) = 64
   \<and> max 1 (min 127 (1 + (1/2) ^ 2 * 126)) = (65/2 :: real)
   \<and> \<lceil>65/2 :: real\<rceil> = 33"
  by (simp add: velocity_of_def py_int_def power2_eq_square)

section \<open>One pass of the stepping loop\<close>

lemma quantize_time_ok:
  "beat_seconds \<noteq> 0 \<Longrightarrow> \<exists>q. quantize_time t quant beat_seconds = Inr q"
  by (simp add: quantize_time_def Let_def)


lemma step_shape:
  assumes "step c vs t = Inr (ns, vs')"
  shows "\<exists>chosen start_q end_q0.
      chosen_pitches (c_base_midi c) (c_scale_degrees c) (step_deg_index c vs t) (c_poly c)
        = Inr chosen
    \<and> quantize_time t (c_rhythm_quant c) (c_beat_seconds c) = Inr start_q
    \<and> quantize_time (min (c_end_t c) (t + c_dt c)) (c_rhythm_quant c) (c_beat_seconds c)
        = Inr end_q0
    \<and> ns = map (\<lambda>pitch. \<lparr>n_velocity = velocity_of (c_vel_curve c) (step_v_scaled c vs t),
                 n_pitch = pitch, n_start = start_q,
                 n_end = (if end_q0 \<le> start_q then start_q + max 0.01 (c_dt c) else end_q0)\<rparr>)
           chosen"
  using assms
  by (auto simp: step_def Let_def step_deg_index_def step_v_scaled_def split: sum.splits)

lemma step_total:
  assumes "c_scale_degrees c \<noteq> []" "c_beat_seconds c \<noteq> 0"
  shows "\<exists>ns vs'. step c vs t = Inr (ns, vs')"
proof -
  obtain q1 where q1: "quantize_time t (c_rhythm_quant c) (c_beat_seconds c) = Inr q1"
    using quantize_time_ok [OF assms(2)] by blast
  obtain q2 where q2: "quantize_time (min (c_end_t c) (t + c_dt c)) (c_rhythm_quant c)
      (c_beat_seconds c) = Inr q2"
    using quantize_time_ok [OF assms(2)] by blast
  show ?thesis
    by (simp add: step_def Let_def chosen_pitches_ok [OF assms(1)] q1 q2)
qed

subsection \<open>Voices stack upward\<close>






lemma demo_scale: "get_scale_degrees ''a_minor'' = [0, 2, 3, 5, 7, 8, 10]"
  by (simp add: get_scale_degrees_def scales_def lower_def lower_char_def replace_dash_def)

lemma demo_fn0: "lambdify3 demo_sympy (Const 0) = (\<lambda>x y z. Some 0)"
  by (simp add: demo_sympy_def)

lemma demo_q1: "quantize_time 0 (1/16) 1 = Inr 0"
  by (simp add: quantize_time_def py_round_def)

lemma demo_deg_index: "deg_index_of (1/2) (total_steps_of [0, 2, 3, 5, 7, 8, 10] 2) = 7"
  by (simp add: deg_index_of_def total_steps_of_def py_int_def)

lemma demo_velocity: "velocity_of ''linear'' (1/2) = 64"
  by (simp add: velocity_of_def py_int_def)

lemma demo_chosen: "chosen_pitches 60 [0, 2, 3, 5, 7, 8, 10] 7 2 = Inr [72, 74]"
  by (simp add: chosen_pitches_def voice_pitch_def py_index_def numeral_2_eq_2)


lemma demo_dt: "dt_of 1 (1/8) = 1/8"
  by (simp add: dt_of_def)

text \<open>The pass at time 0 of the concrete equation, whatever its rules, limits and base
  pitch: the end of the window is the start, so the quantised interval is empty and the
  end of the notes is moved to \<open>start + max 0.01 dt\<close>.\<close>

lemma demo_step_notes:
  assumes "chosen_pitches base [0, 2, 3, 5, 7, 8, 10] 7 2 = Inr [p1, p2]"
  shows "step (loop_ctx (lambdify3 demo_sympy (Const 0)) ufs 1
           (demo_eq\<lparr>eq_base_midi := base, eq_limits := ls\<rparr>)) vs 0
   = Inr ([\<lparr>n_velocity = 64, n_pitch = p1, n_start = 0, n_end = 1/8\<rparr>,
           \<lparr>n_velocity = 64, n_pitch = p2, n_start = 0, n_end = 1/8\<rparr>],
          apply_limits ls (apply_updates ufs 0 vs))"
  by (cases ufs)
    (simp_all add: step_def Let_def loop_ctx_def demo_eq_def demo_scale demo_fn0 demo_dt
      evaluate_def demo_deg_index assms demo_velocity demo_q1)

lemma demo_eq_fields:
  "demo_eq\<lparr>eq_base_midi := 60, eq_limits := []\<rparr> = demo_eq"
  by (simp add: demo_eq_def)






section \<open>Update rules and limits\<close>

lemma update_loop_all_parse:
  assumes "\<forall>upd \<in> set updates. rule_kept upd \<longrightarrow> sympify sy (rule_right upd) \<noteq> None"
  shows "update_loop sy updates acc
    = Some (acc @ map (\<lambda>upd. (rule_left upd, lambdify4 sy (the (sympify sy (rule_right upd)))))
                    (filter rule_kept updates))"
  using assms
proof (induction updates arbitrary: acc)
  case Nil
  show ?case by simp
next
  case (Cons upd rest)
  then show ?case
    by (auto simp: Let_def rule_kept_def rule_left_def rule_right_def split: option.splits)
qed

lemma update_loop_some_fails:
  assumes "upd \<in> set updates" "rule_kept upd" "sympify sy (rule_right upd) = None"
  shows "update_loop sy updates acc = None"
  using assms
proof (induction updates arbitrary: acc)
  case Nil
  then show ?case by simp
next
  case (Cons u rest)
  then show ?case
    by (auto simp: Let_def rule_kept_def rule_left_def rule_right_def split: option.splits)
qed

lemma prepare_updates_all_parse:
  assumes "\<forall>upd \<in> set updates. rule_kept upd \<longrightarrow> sympify sy (rule_right upd) \<noteq> None"
  shows "prepare_updates sy updates
    = map (\<lambda>upd. (rule_left upd, lambdify4 sy (the (sympify sy (rule_right upd)))))
        (filter rule_kept updates)"
  by (simp add: prepare_updates_def update_loop_all_parse [OF assms])

lemma prepare_updates_some_fails:
  assumes "upd \<in> set updates" "rule_kept upd" "sympify sy (rule_right upd) = None"
  shows "prepare_updates sy updates = []"
  by (simp add: prepare_updates_def update_loop_some_fails [OF assms])

lemma apply_updates_append:
  "apply_updates (fs @ gs) t vs = apply_updates gs t (apply_updates fs t vs)"
  by (induction fs arbitrary: vs) (auto split: option.splits)

lemma apply_limits_append:
  "apply_limits (ls @ ms) vs = apply_limits ms (apply_limits ls vs)"
  by (induction ls arbitrary: vs) (auto split: sum.splits)


lemma demo_prepare_two:
  "prepare_updates demo_sympy [''x = x + 1'', ''y = x'']
    = [(''x'', lambdify4 demo_sympy (Add (Sym ''x'') (Const 1))),
       (''y'', lambdify4 demo_sympy (Sym ''x''))]"
  by (simp add: prepare_updates_def split_eq_def strip_def is_space_def demo_sympy_def
      demo_table_def)



lemma demo_apply_two:
  "apply_updates [(''x'', lambdify4 demo_sympy (Add (Sym ''x'') (Const 1))),
                  (''y'', lambdify4 demo_sympy (Sym ''x''))] t
     [''x'' \<mapsto> 1, ''y'' \<mapsto> 0, ''z'' \<mapsto> 0]
   = [''x'' \<mapsto> 2, ''y'' \<mapsto> 2, ''z'' \<mapsto> 0]"
  by (auto simp: var_get_def demo_sympy_def)



subsection \<open>Rules and limits that fail\<close>

lemma apply_updates_skip:
  assumes "f_rhs (var_get (apply_updates fs t vs) ''x'') (var_get (apply_updates fs t vs) ''y'')
      (var_get (apply_updates fs t vs) ''z'') t = None"
  shows "apply_updates (fs @ (varname, f_rhs) # gs) t vs = apply_updates (fs @ gs) t vs"
  using assms by (simp add: apply_updates_append)

lemma apply_limits_skip:
  assumes "apply_limit varname limit (apply_limits ls vs) = Inl er"
  shows "apply_limits (ls @ (varname, limit) # ms) vs = apply_limits (ls @ ms) vs"
  using assms by (simp add: apply_limits_append)

text \<open>
  Claim C1, as the code has it. A rule without \<^verbatim>\<open>'='\<close> or with a left-hand side other
  than \<open>x\<close>, \<open>y\<close>, \<open>z\<close> is left out alone: when the right-hand sides of the other rules
  all parse, these are compiled and kept in order. A rule whose evaluation raises in a
  pass is passed over in that pass and the rules around it are applied; a limit whose
  entry cannot be read is passed over and the limits around it are applied. But one kept
  rule whose right-hand side does not parse empties the whole list: then no rule of the
  equation is applied at any step.
\<close>

theorem failing_rule_skipped:
  "((\<forall>upd \<in> set updates. rule_kept upd \<longrightarrow> sympify sy (rule_right upd) \<noteq> None) \<longrightarrow>
      prepare_updates sy updates
        = map (\<lambda>upd. (rule_left upd, lambdify4 sy (the (sympify sy (rule_right upd)))))
            (filter rule_kept updates))
   \<and> (f_rhs (var_get (apply_updates fs t vs) ''x'') (var_get (apply_updates fs t vs) ''y'')
         (var_get (apply_updates fs t vs) ''z'') t = None \<longrightarrow>
      apply_updates (fs @ (varname, f_rhs) # gs) t vs = apply_updates (fs @ gs) t vs)
   \<and> (apply_limit lname limit (apply_limits ls ws) = Inl er \<longrightarrow>
      apply_limits (ls @ (lname, limit) # ms) ws = apply_limits (ls @ ms) ws)
   \<and> (bad \<in> set updates' \<longrightarrow> rule_kept bad \<longrightarrow> sympify sy (rule_right bad) = None \<longrightarrow>
      prepare_updates sy updates' = [])"
  using prepare_updates_all_parse [of updates sy]
    apply_updates_skip [of f_rhs fs t vs varname gs]
    apply_limits_skip [of lname limit ls ws er ms]
    prepare_updates_some_fails [of bad updates' sy]
  by blast

lemma demo_prepare_five:
  "prepare_updates demo_sympy [''x = x + 1'', ''bogus'', ''w = x'', ''y = x + w'', ''z = 2*z'']
    = [(''x'', lambdify4 demo_sympy (Add (Sym ''x'') (Const 1))),
       (''y'', lambdify4 demo_sympy (Add (Sym ''x'') (Sym ''w''))),
       (''z'', lambdify4 demo_sympy (Mul (Const 2) (Sym ''z'')))]"
  by (simp add: prepare_updates_def split_eq_def strip_def is_space_def demo_sympy_def
      demo_table_def)

lemma demo_prepare_unparsed:
  "prepare_updates demo_sympy [''x = x + 1'', ''y = x +''] = []"
  by (simp add: prepare_updates_def split_eq_def strip_def is_space_def demo_sympy_def
      demo_table_def)

theorem failing_rule_skipped_witness:
  "prepare_updates demo_sympy [''x = x + 1'', ''bogus'', ''w = x'', ''y = x + w'', ''z = 2*z'']
     = [(''x'', lambdify4 demo_sympy (Add (Sym ''x'') (Const 1))),
        (''y'', lambdify4 demo_sympy (Add (Sym ''x'') (Sym ''w''))),
        (''z'', lambdify4 demo_sympy (Mul (Const 2) (Sym ''z'')))]
   \<and> apply_updates
        [(''x'', lambdify4 demo_sympy (Add (Sym ''x'') (Const 1))),
         (''y'', lambdify4 demo_sympy (Add (Sym ''x'') (Sym ''w''))),
         (''z'', lambdify4 demo_sympy (Mul (Const 2) (Sym ''z'')))] 0
        [''x'' \<mapsto> 1, ''y'' \<mapsto> 5, ''z'' \<mapsto> 3]
     = [''x'' \<mapsto> 2, ''y'' \<mapsto> 5, ''z'' \<mapsto> 6]
   \<and> apply_limits [(''y'', [NotNum, Num 0]), (''z'', [Num 6, Num 0]), (''x'', [Num 1])]
        [''x'' \<mapsto> 2, ''y'' \<mapsto> 5, ''z'' \<mapsto> 6]
     = [''x'' \<mapsto> 2, ''y'' \<mapsto> 5, ''z'' \<mapsto> 0]
   \<and> prepare_updates demo_sympy [''x = x + 1'', ''y = x +''] = []"
proof -
  let ?fx = "(''x'', lambdify4 demo_sympy (Add (Sym ''x'') (Const 1)))"
  let ?fy = "lambdify4 demo_sympy (Add (Sym ''x'') (Sym ''w''))"
  let ?fz = "(''z'', lambdify4 demo_sympy (Mul (Const 2) (Sym ''z'')))"
  let ?vs = "[''x'' \<mapsto> 1, ''y'' \<mapsto> 5, ''z'' \<mapsto> (3::real)]"
  let ?ws = "[''x'' \<mapsto> 2, ''y'' \<mapsto> 5, ''z'' \<mapsto> (6::real)]"
  let ?us = "[''x = x + 1'', ''bogus'', ''w = x'', ''y = x + w'', ''z = 2*z'']"
  have kept: "\<forall>upd \<in> set ?us. rule_kept upd \<longrightarrow> sympify demo_sympy (rule_right upd) \<noteq> None"
    by (simp add: rule_kept_def rule_left_def rule_right_def split_eq_def strip_def
        is_space_def demo_sympy_def demo_table_def)
  have one: "apply_updates [?fx] 0 ?vs = [''x'' \<mapsto> 2, ''y'' \<mapsto> 5, ''z'' \<mapsto> 3]"
    by (auto simp: var_get_def demo_sympy_def)
  have raises: "?fy (var_get (apply_updates [?fx] 0 ?vs) ''x'')
      (var_get (apply_updates [?fx] 0 ?vs) ''y'') (var_get (apply_updates [?fx] 0 ?vs) ''z'') 0
      = None"
    unfolding one by (simp add: demo_sympy_def)
  have rejected: "apply_limit ''y'' [NotNum, Num 0] (apply_limits [] ?ws) = Inl TypeError"
    by (simp add: apply_limit_def py_index_def py_float_def)
  have bad: "''y = x +'' \<in> set [''x = x + 1'', ''y = x +'']" "rule_kept ''y = x +''"
    "sympify demo_sympy (rule_right ''y = x +'') = None"
    by (simp_all add: rule_kept_def rule_left_def rule_right_def split_eq_def strip_def
        is_space_def demo_sympy_def demo_table_def)
  from failing_rule_skipped
    [of ?us demo_sympy ?fy "[?fx]" 0 ?vs "''y''" "[?fz]" "''y''" "[NotNum, Num 0]" "[]" ?ws
        TypeError "[(''z'', [Num 6, Num 0]), (''x'', [Num 1])]" "''y = x +''"
        "[''x = x + 1'', ''y = x +'']"]
    kept raises rejected bad
  have skip_rule: "apply_updates ([?fx] @ (''y'', ?fy) # [?fz]) 0 ?vs
      = apply_updates ([?fx] @ [?fz]) 0 ?vs"
    and skip_limit: "apply_limits ([] @ (''y'', [NotNum, Num 0])
        # [(''z'', [Num 6, Num 0]), (''x'', [Num 1])]) ?ws
      = apply_limits ([] @ [(''z'', [Num 6, Num 0]), (''x'', [Num 1])]) ?ws"
    and emptied: "prepare_updates demo_sympy [''x = x + 1'', ''y = x +''] = []"
    by blast+
  have rest: "apply_updates ([?fx] @ [?fz]) 0 ?vs = ?ws"
    by (auto simp: var_get_def demo_sympy_def)
  have lims: "apply_limits ([] @ [(''z'', [Num 6, Num 0]), (''x'', [Num 1])]) ?ws
      = [''x'' \<mapsto> 2, ''y'' \<mapsto> 5, ''z'' \<mapsto> 0]"
    by (auto simp: apply_limit_def py_index_def py_float_def var_get_def)
  show ?thesis
    using demo_prepare_five skip_rule rest skip_limit lims emptied by simp
qed

text \<open>The claim as written fails for a right-hand side that does not parse: of the rules
  \<^verbatim>\<open>['x = x + 1', 'y = x +']\<close> none is kept, so the well-formed first rule is not
  applied and \<open>x\<close> stays at 1, while the first rule alone takes it to 2.\<close>

theorem unparsed_rule_counterexample:
  "prepare_updates demo_sympy [''x = x + 1'', ''y = x +''] = []
   \<and> var_get (apply_updates (prepare_updates demo_sympy [''x = x + 1'', ''y = x +'']) 0
        [''x'' \<mapsto> 1, ''y'' \<mapsto> 0, ''z'' \<mapsto> 0]) ''x'' = 1
   \<and> var_get (apply_updates (prepare_updates demo_sympy [''x = x + 1'']) 0
        [''x'' \<mapsto> 1, ''y'' \<mapsto> 0, ''z'' \<mapsto> 0]) ''x'' = 2"
proof -
  have single: "prepare_updates demo_sympy [''x = x + 1'']
      = [(''x'', lambdify4 demo_sympy (Add (Sym ''x'') (Const 1)))]"
    by (simp add: prepare_updates_def split_eq_def strip_def is_space_def demo_sympy_def
        demo_table_def)
  show ?thesis
    unfolding demo_prepare_unparsed single by (simp add: var_get_def demo_sympy_def)
qed

section \<open>The stepping loop\<close>

text \<open>The loop writes one object of the store, the one at the address it is given, and
  gives out no address.\<close>

lemma loop_frame:
  assumes "stepping_loop c s a t acc = Some y"
  shows "next_addr (fst y) = next_addr s \<and> (\<forall>b. b \<noteq> a \<longrightarrow> objs (fst y) b = objs s b)"
  using assms
proof (rule stepping_loop.raw_induct [rotated,
    where P = "\<lambda>c s a t acc y. next_addr (fst y) = next_addr s
      \<and> (\<forall>b. b \<noteq> a \<longrightarrow> objs (fst y) b = objs s b)"])
  fix loop c s a t acc y
  assume IH: "\<And>c s a t acc y. loop c s a t acc = Some y \<Longrightarrow>
      next_addr (fst y) = next_addr s \<and> (\<forall>b. b \<noteq> a \<longrightarrow> objs (fst y) b = objs s b)"
    and body: "(if t \<le> c_end_t c + 1 / 10 ^ 9
      then case step c (objs s a) t of
             Inl er \<Rightarrow> Some (s, Inl er)
           | Inr (new_notes, vs') \<Rightarrow>
               loop c (store_write a vs' s) a (t + c_dt c) (acc @ new_notes)
      else Some (s, Inr acc)) = Some y"
  show "next_addr (fst y) = next_addr s \<and> (\<forall>b. b \<noteq> a \<longrightarrow> objs (fst y) b = objs s b)"
  proof (cases "t \<le> c_end_t c + 1 / 10 ^ 9")
    case False
    then show ?thesis using body by auto
  next
    case True
    show ?thesis
    proof (cases "step c (objs s a) t")
      case (Inl er)
      then show ?thesis using body True by auto
    next
      case (Inr r)
      obtain ns vs' where r: "r = (ns, vs')" by (cases r)
      have "loop c (store_write a vs' s) a (t + c_dt c) (acc @ ns) = Some y"
        using body True Inr r by simp
      from IH [OF this] show ?thesis by (simp add: store_write_def)
    qed
  qed
qed

lemma loop_notes:
  assumes "stepping_loop c s a t acc = Some y"
    and Qstep: "\<And>c vs t ns vs'. step c vs t = Inr (ns, vs') \<Longrightarrow> list_all Q ns"
    and "list_all Q acc"
  shows "case snd y of Inl er \<Rightarrow> True | Inr acc' \<Rightarrow> list_all Q acc'"
proof -
  have "list_all Q acc \<longrightarrow> (case snd y of Inl er \<Rightarrow> True | Inr acc' \<Rightarrow> list_all Q acc')"
    using assms(1)
  proof (rule stepping_loop.raw_induct [rotated,
      where P = "\<lambda>c s a t acc y. list_all Q acc
        \<longrightarrow> (case snd y of Inl er \<Rightarrow> True | Inr acc' \<Rightarrow> list_all Q acc')"])
    fix loop c s a t acc y
    assume IH: "\<And>c s a t acc y. loop c s a t acc = Some y \<Longrightarrow>
        list_all Q acc \<longrightarrow> (case snd y of Inl er \<Rightarrow> True | Inr acc' \<Rightarrow> list_all Q acc')"
      and body: "(if t \<le> c_end_t c + 1 / 10 ^ 9
        then case step c (objs s a) t of
               Inl er \<Rightarrow> Some (s, Inl er)
             | Inr (new_notes, vs') \<Rightarrow>
                 loop c (store_write a vs' s) a (t + c_dt c) (acc @ new_notes)
        else Some (s, Inr acc)) = Some y"
    show "list_all Q acc \<longrightarrow> (case snd y of Inl er \<Rightarrow> True | Inr acc' \<Rightarrow> list_all Q acc')"
    proof (cases "t \<le> c_end_t c + 1 / 10 ^ 9")
      case False
      then show ?thesis using body by auto
    next
      case True
      show ?thesis
      proof (cases "step c (objs s a) t")
        case (Inl er)
        then show ?thesis using body True by auto
      next
        case (Inr r)
        obtain ns vs' where r: "r = (ns, vs')" by (cases r)
        have call: "loop c (store_write a vs' s) a (t + c_dt c) (acc @ ns) = Some y"
          using body True Inr r by simp
        have "list_all Q ns" using Qstep Inr r by blast
        then show ?thesis using IH [OF call] by simp
      qed
    qed
  qed
  then show ?thesis using assms(3) by simp
qed

lemma loop_returns_aux:
  assumes "0 < c_dt c"
  shows "c_end_t c + 1 / 10 ^ 9 - t < real k * c_dt c \<Longrightarrow> \<exists>y. stepping_loop c s a t acc = Some y"
proof (induction k arbitrary: s t acc)
  case 0
  then have "\<not> t \<le> c_end_t c + 1 / 10 ^ 9" by simp
  then show ?case by (subst stepping_loop.simps) simp
next
  case (Suc k)
  show ?case
  proof (cases "t \<le> c_end_t c + 1 / 10 ^ 9")
    case False
    then show ?thesis by (subst stepping_loop.simps) simp
  next
    case True
    show ?thesis
    proof (cases "step c (objs s a) t")
      case (Inl er)
      then show ?thesis using True by (subst stepping_loop.simps) simp
    next
      case (Inr r)
      obtain ns vs' where r: "r = (ns, vs')" by (cases r)
      have "c_end_t c + 1 / 10 ^ 9 - (t + c_dt c) < real k * c_dt c"
        using Suc.prems by (simp add: algebra_simps)
      from Suc.IH [OF this, of "store_write a vs' s" "acc @ ns"]
      show ?thesis using True Inr r by (subst stepping_loop.simps) simp
    qed
  qed
qed

lemma loop_returns:
  assumes "0 < c_dt c"
  shows "\<exists>y. stepping_loop c s a t acc = Some y"
proof -
  obtain k :: nat where "c_end_t c + 1 / 10 ^ 9 - t < real k * c_dt c"
    using ex_less_of_nat_mult [OF assms] by blast
  then show ?thesis by (rule loop_returns_aux [OF assms])
qed

text \<open>With a positive step length, a scale of the table and a beat that is not zero the
  loop ends, and without an error.\<close>

lemma loop_returns_ok_aux:
  assumes "0 < c_dt c" "c_scale_degrees c \<noteq> []" "c_beat_seconds c \<noteq> 0"
  shows "c_end_t c + 1 / 10 ^ 9 - t < real k * c_dt c
    \<Longrightarrow> \<exists>s' ns. stepping_loop c s a t acc = Some (s', Inr ns)"
proof (induction k arbitrary: s t acc)
  case 0
  then have "\<not> t \<le> c_end_t c + 1 / 10 ^ 9" by simp
  then show ?case by (subst stepping_loop.simps) simp
next
  case (Suc k)
  show ?case
  proof (cases "t \<le> c_end_t c + 1 / 10 ^ 9")
    case False
    then show ?thesis by (subst stepping_loop.simps) simp
  next
    case True
    obtain ns vs' where st: "step c (objs s a) t = Inr (ns, vs')"
      using step_total [OF assms(2,3)] by blast
    have "c_end_t c + 1 / 10 ^ 9 - (t + c_dt c) < real k * c_dt c"
      using Suc.prems by (simp add: algebra_simps)
    from Suc.IH [OF this, of "store_write a vs' s" "acc @ ns"]
    show ?thesis using True st by (subst stepping_loop.simps) simp
  qed
qed

lemma loop_returns_ok:
  assumes "0 < c_dt c" "c_scale_degrees c \<noteq> []" "c_beat_seconds c \<noteq> 0"
  shows "\<exists>s' ns. stepping_loop c s a t acc = Some (s', Inr ns)"
proof -
  obtain k :: nat where "c_end_t c + 1 / 10 ^ 9 - t < real k * c_dt c"
    using ex_less_of_nat_mult [OF assms(1)] by blast
  then show ?thesis by (rule loop_returns_ok_aux [OF assms])
qed

text \<open>With a step length that is not positive the loop, once entered, never ends.\<close>

lemma loop_never_ends:
  assumes "stepping_loop c s a t acc = Some y"
  shows "\<not> (c_dt c \<le> 0 \<and> c_scale_degrees c \<noteq> [] \<and> c_beat_seconds c \<noteq> 0
            \<and> t \<le> c_end_t c + 1 / 10 ^ 9)"
  using assms
proof (rule stepping_loop.raw_induct [rotated,
    where P = "\<lambda>c s a t acc y. \<not> (c_dt c \<le> 0 \<and> c_scale_degrees c \<noteq> []
      \<and> c_beat_seconds c \<noteq> 0 \<and> t \<le> c_end_t c + 1 / 10 ^ 9)"])
  fix loop c s a t acc y
  assume IH: "\<And>c s a t acc y. loop c s a t acc = Some y \<Longrightarrow>
      \<not> (c_dt c \<le> 0 \<and> c_scale_degrees c \<noteq> [] \<and> c_beat_seconds c \<noteq> 0
           \<and> t \<le> c_end_t c + 1 / 10 ^ 9)"
    and body: "(if t \<le> c_end_t c + 1 / 10 ^ 9
      then case step c (objs s a) t of
             Inl er \<Rightarrow> Some (s, Inl er)
           | Inr (new_notes, vs') \<Rightarrow>
               loop c (store_write a vs' s) a (t + c_dt c) (acc @ new_notes)
      else Some (s, Inr acc)) = Some y"
  show "\<not> (c_dt c \<le> 0 \<and> c_scale_degrees c \<noteq> [] \<and> c_beat_seconds c \<noteq> 0
            \<and> t \<le> c_end_t c + 1 / 10 ^ 9)"
  proof
    assume h: "c_dt c \<le> 0 \<and> c_scale_degrees c \<noteq> [] \<and> c_beat_seconds c \<noteq> 0
        \<and> t \<le> c_end_t c + 1 / 10 ^ 9"
    then obtain ns vs' where st: "step c (objs s a) t = Inr (ns, vs')"
      using step_total [of c "objs s a" t] by blast
    have "loop c (store_write a vs' s) a (t + c_dt c) (acc @ ns) = Some y"
      using body h st by simp
    from IH [OF this] h show False by simp
  qed
qed

lemma loop_diverges:
  assumes "c_dt c \<le> 0" "c_scale_degrees c \<noteq> []" "c_beat_seconds c \<noteq> 0"
    "t \<le> c_end_t c + 1 / 10 ^ 9"
  shows "stepping_loop c s a t acc = None"
proof (cases "stepping_loop c s a t acc")
  case None
  then show ?thesis .
next
  case (Some y)
  from loop_never_ends [OF this] assms show ?thesis by simp
qed

lemma dt_of_pos: "0 < beat_seconds \<Longrightarrow> 0 < dt_of beat_seconds fraction"
  by (simp add: dt_of_def Let_def not_le)

lemma loop_ctx_fields:
  "c_dt (loop_ctx fn ufs bs e) = dt_of bs (eq_frac e)"
  "c_scale_degrees (loop_ctx fn ufs bs e) = get_scale_degrees (eq_scale_name e)"
  "c_beat_seconds (loop_ctx fn ufs bs e) = bs"
  by (simp_all add: loop_ctx_def)

lemma scale_nonempty: "get_scale_degrees name \<noteq> []"
  using get_scale_degrees_good [of name] by (simp add: good_scale_def)


lemma render_equation_cases:
  assumes "render_equation sy bs e st = Some out"
  shows "(\<exists>er. out = Raised er st)
    \<or> (\<exists>fn s2 r. parse_expr sy (eq_expr e) = Inr fn
        \<and> stepping_loop (loop_ctx fn (prepare_updates sy (eq_updates e)) bs e)
             (snd (alloc (objs (heap st) (eq_vars e)) (heap st)))
             (next_addr (heap st)) (eq_start_t e) [] = Some (s2, r)
        \<and> (case r of
              Inl er \<Rightarrow> out = Raised er (st\<lparr>heap := s2\<rparr>)
            | Inr acc \<Rightarrow> out = Returned \<lparr>heap = s2, instruments = instruments st
                @ [\<lparr>i_program = (if lower (eq_instr_name e) = ''piano'' then 0 else 80),
                    i_name = eq_name e, i_notes = acc\<rparr>]\<rparr>))"
proof (cases "parse_expr sy (eq_expr e)")
  case (Inl er)
  then show ?thesis using assms by (auto simp: render_equation_def)
next
  case (Inr fn)
  let ?lp = "stepping_loop (loop_ctx fn (prepare_updates sy (eq_updates e)) bs e)
      (snd (alloc (objs (heap st) (eq_vars e)) (heap st)))
      (next_addr (heap st)) (eq_start_t e) []"
  have unfolded: "render_equation sy bs e st =
      (case ?lp of
         None \<Rightarrow> None
       | Some (s2, Inl er) \<Rightarrow> Some (Raised er (st\<lparr>heap := s2\<rparr>))
       | Some (s2, Inr acc) \<Rightarrow> Some (Returned \<lparr>heap = s2, instruments = instruments st
           @ [\<lparr>i_program = (if lower (eq_instr_name e) = ''piano'' then 0 else 80),
               i_name = eq_name e, i_notes = acc\<rparr>]\<rparr>))"
    using Inr by (simp add: render_equation_def Let_def alloc_def)
  obtain s2 r where lp: "?lp = Some (s2, r)"
    using assms unfolded by (cases ?lp) auto
  have "case r of
          Inl er \<Rightarrow> out = Raised er (st\<lparr>heap := s2\<rparr>)
        | Inr acc \<Rightarrow> out = Returned \<lparr>heap = s2, instruments = instruments st
            @ [\<lparr>i_program = (if lower (eq_instr_name e) = ''piano'' then 0 else 80),
                i_name = eq_name e, i_notes = acc\<rparr>]\<rparr>"
    using assms unfolded lp by (cases r) auto
  then show ?thesis using Inr lp by blast
qed

lemma render_equation_frame:
  assumes "render_equation sy bs e st = Some out"
  shows "next_addr (heap st) \<le> next_addr (heap (outcome_state out))
    \<and> (\<forall>b < next_addr (heap st). objs (heap (outcome_state out)) b = objs (heap st) b)"
proof -
  from render_equation_cases [OF assms] show ?thesis
  proof (elim disjE exE conjE)
    fix er assume "out = Raised er st"
    then show ?thesis by (simp add: outcome_state_def)
  next
    fix fn s2 r
    assume lp: "stepping_loop (loop_ctx fn (prepare_updates sy (eq_updates e)) bs e)
             (snd (alloc (objs (heap st) (eq_vars e)) (heap st)))
             (next_addr (heap st)) (eq_start_t e) [] = Some (s2, r)"
      and out: "case r of
              Inl er \<Rightarrow> out = Raised er (st\<lparr>heap := s2\<rparr>)
            | Inr acc \<Rightarrow> out = Returned \<lparr>heap = s2, instruments = instruments st
                @ [\<lparr>i_program = (if lower (eq_instr_name e) = ''piano'' then 0 else 80),
                    i_name = eq_name e, i_notes = acc\<rparr>]\<rparr>"
    have h: "heap (outcome_state out) = s2"
      using out by (cases r) (simp_all add: outcome_state_def)
    from loop_frame [OF lp] show ?thesis
      unfolding h by (simp add: alloc_def)
  qed
qed

lemma render_equation_notes:
  assumes "render_equation sy bs e st = Some out"
    and Qstep: "\<And>c vs t ns vs'. step c vs t = Inr (ns, vs') \<Longrightarrow> list_all Q ns"
    and "all_notes Q st"
  shows "all_notes Q (outcome_state out)"
proof -
  from render_equation_cases [OF assms(1)] show ?thesis
  proof (elim disjE exE conjE)
    fix er assume "out = Raised er st"
    then show ?thesis using assms(3) by (simp add: outcome_state_def)
  next
    fix fn s2 r
    assume lp: "stepping_loop (loop_ctx fn (prepare_updates sy (eq_updates e)) bs e)
             (snd (alloc (objs (heap st) (eq_vars e)) (heap st)))
             (next_addr (heap st)) (eq_start_t e) [] = Some (s2, r)"
      and out: "case r of
              Inl er \<Rightarrow> out = Raised er (st\<lparr>heap := s2\<rparr>)
            | Inr acc \<Rightarrow> out = Returned \<lparr>heap = s2, instruments = instruments st
                @ [\<lparr>i_program = (if lower (eq_instr_name e) = ''piano'' then 0 else 80),
                    i_name = eq_name e, i_notes = acc\<rparr>]\<rparr>"
    have "case snd (s2, r) of Inl er \<Rightarrow> True | Inr acc' \<Rightarrow> list_all Q acc'"
      by (rule loop_notes [OF lp Qstep]) simp_all
    then show ?thesis using out assms(3)
      by (cases r) (simp_all add: outcome_state_def all_notes_def)
  qed
qed

lemma render_equation_returns:
  assumes "0 < bs"
  shows "\<exists>out. render_equation sy bs e st = Some out"
proof (cases "parse_expr sy (eq_expr e)")
  case (Inl er)
  then show ?thesis by (simp add: render_equation_def)
next
  case (Inr fn)
  let ?c = "loop_ctx fn (prepare_updates sy (eq_updates e)) bs e"
  have "0 < c_dt ?c" "c_scale_degrees ?c \<noteq> []" "c_beat_seconds ?c \<noteq> 0"
    using assms by (simp_all add: loop_ctx_fields dt_of_pos scale_nonempty)
  from loop_returns_ok [OF this]
  obtain s' ns where "stepping_loop ?c (snd (alloc (objs (heap st) (eq_vars e)) (heap st)))
      (next_addr (heap st)) (eq_start_t e) [] = Some (s', Inr ns)"
    by blast
  then show ?thesis using Inr
    by (simp add: render_equation_def Let_def alloc_def)
qed

section \<open>The loop over the equations\<close>


lemma render_equations_frame:
  assumes "render_equations sy bs es st = Some out"
  shows "next_addr (heap st) \<le> next_addr (heap (outcome_state out))
    \<and> (\<forall>b < next_addr (heap st). objs (heap (outcome_state out)) b = objs (heap st) b)"
  using assms
proof (induction es arbitrary: st)
  case Nil
  then show ?case by (auto simp: outcome_state_def)
next
  case (Cons e es)
  obtain o1 where o1: "render_equation sy bs e st = Some o1"
    using Cons.prems by (cases "render_equation sy bs e st") auto
  note f1 = render_equation_frame [OF o1]
  show ?case
  proof (cases o1)
    case (Raised er st')
    then have "out = o1" using Cons.prems o1 by simp
    then show ?thesis using f1 by simp
  next
    case (Returned st')
    then have "render_equations sy bs es st' = Some out" using Cons.prems o1 by simp
    from Cons.IH [OF this] f1 show ?thesis
      unfolding Returned by (auto simp: outcome_state_def)
  qed
qed

lemma render_equations_notes:
  assumes "render_equations sy bs es st = Some out"
    and Qstep: "\<And>c vs t ns vs'. step c vs t = Inr (ns, vs') \<Longrightarrow> list_all Q ns"
    and "all_notes Q st"
  shows "all_notes Q (outcome_state out)"
  using assms(1,3)
proof (induction es arbitrary: st)
  case Nil
  then show ?case by (auto simp: outcome_state_def)
next
  case (Cons e es)
  obtain o1 where o1: "render_equation sy bs e st = Some o1"
    using Cons.prems by (cases "render_equation sy bs e st") auto
  have n1: "all_notes Q (outcome_state o1)"
    by (rule render_equation_notes [OF o1 Qstep Cons.prems(2)])
  show ?case
  proof (cases o1)
    case (Raised er st')
    then have "out = o1" using Cons.prems o1 by simp
    then show ?thesis using n1 by simp
  next
    case (Returned st')
    then have run: "render_equations sy bs es st' = Some out" using Cons.prems o1 by simp
    have "all_notes Q st'" using n1 Returned by (simp add: outcome_state_def)
    from Cons.IH [OF run this] show ?thesis .
  qed
qed

lemma render_equations_returns:
  assumes "0 < bs"
  shows "\<exists>out. render_equations sy bs es st = Some out"
proof (induction es arbitrary: st)
  case Nil
  show ?case by simp
next
  case (Cons e es)
  obtain o1 where o1: "render_equation sy bs e st = Some o1"
    using render_equation_returns [OF assms] by blast
  show ?case
  proof (cases o1)
    case (Raised er st')
    then show ?thesis using o1 by simp
  next
    case (Returned st')
    then show ?thesis using o1 Cons.IH [of st'] by simp
  qed
qed



lemma step_interval:
  assumes "step c vs t = Inr (ns, vs')"
  shows "list_all (\<lambda>n. n_start n < n_end n) ns"
proof -
  from step_shape [OF assms] obtain chosen start_q end_q0 where
    ns: "ns = map (\<lambda>pitch. \<lparr>n_velocity = velocity_of (c_vel_curve c) (step_v_scaled c vs t),
                 n_pitch = pitch, n_start = start_q,
                 n_end = (if end_q0 \<le> start_q then start_q + max 0.01 (c_dt c) else end_q0)\<rparr>)
           chosen"
    by blast
  have "start_q < (if end_q0 \<le> start_q then start_q + max 0.01 (c_dt c) else end_q0)"
    by (simp add: max_def)
  then show ?thesis unfolding ns by (simp add: list_all_iff)
qed

lemma step_collapse:
  assumes "step c vs t = Inr (ns, vs')"
    and "quantize_time t (c_rhythm_quant c) (c_beat_seconds c) = Inr start_q"
    and "quantize_time (min (c_end_t c) (t + c_dt c)) (c_rhythm_quant c) (c_beat_seconds c)
        = Inr end_q0"
  shows "list_all (\<lambda>n. n_start n = start_q
      \<and> n_end n = (if end_q0 \<le> start_q then start_q + max 0.01 (c_dt c) else end_q0)) ns"
  using step_shape [OF assms(1)] assms(2,3) by (auto simp: list_all_iff)

lemma render_config_returns:
  assumes "0 < cfg_tempo cfg"
  shows "\<exists>out. render_config sy cfg s = Some out"
proof -
  have "0 < 60 / cfg_tempo cfg" using assms by simp
  from render_equations_returns [OF this] show ?thesis
    using assms by (simp add: render_config_def)
qed

lemma render_config_notes:
  assumes "render_config sy cfg s = Some out"
  shows "all_notes (\<lambda>n. n_start n < n_end n) (outcome_state out)"
proof (cases "cfg_tempo cfg = 0")
  case True
  then show ?thesis using assms
    by (auto simp: render_config_def outcome_state_def all_notes_def)
next
  case False
  then have run: "render_equations sy (60 / cfg_tempo cfg) (cfg_equations cfg)
      \<lparr>heap = s, instruments = []\<rparr> = Some out"
    using assms by (simp add: render_config_def)
  show ?thesis
    by (rule render_equations_notes [OF run step_interval]) (simp_all add: all_notes_def)
qed

section \<open>A concrete rendering\<close>

lemma demo_loop:
  assumes "chosen_pitches base [0, 2, 3, 5, 7, 8, 10] 7 2 = Inr [p1, p2]"
  shows "stepping_loop (loop_ctx (lambdify3 demo_sympy (Const 0)) ufs 1
           (demo_eq\<lparr>eq_base_midi := base, eq_limits := ls\<rparr>)) s a 0 []
   = Some (store_write a (apply_limits ls (apply_updates ufs 0 (objs s a))) s,
           Inr [\<lparr>n_velocity = 64, n_pitch = p1, n_start = 0, n_end = 1/8\<rparr>,
                \<lparr>n_velocity = 64, n_pitch = p2, n_start = 0, n_end = 1/8\<rparr>])"
proof -
  let ?c = "loop_ctx (lambdify3 demo_sympy (Const 0)) ufs 1
      (demo_eq\<lparr>eq_base_midi := base, eq_limits := ls\<rparr>)"
  have e: "c_end_t ?c = 0" and d: "c_dt ?c = 1/8"
    by (simp_all add: loop_ctx_def demo_eq_def demo_dt)
  have first: "stepping_loop ?c s a 0 []
      = stepping_loop ?c (store_write a (apply_limits ls (apply_updates ufs 0 (objs s a))) s) a
          (0 + c_dt ?c)
          ([] @ [\<lparr>n_velocity = 64, n_pitch = p1, n_start = 0, n_end = 1/8\<rparr>,
                 \<lparr>n_velocity = 64, n_pitch = p2, n_start = 0, n_end = 1/8\<rparr>])"
    by (subst stepping_loop.simps) (simp add: e demo_step_notes [OF assms])
  show ?thesis
    unfolding first by (subst stepping_loop.simps) (simp add: e d)
qed

lemma demo_parse: "parse_expr demo_sympy ''0'' = Inr (lambdify3 demo_sympy (Const 0))"
  by (simp add: parse_expr_def demo_sympy_def demo_table_def)

lemma demo_render_equation:
  "render_equation demo_sympy 1 demo_eq \<lparr>heap = demo_store, instruments = []\<rparr>
   = Some (Returned
      \<lparr>heap = \<lparr>objs = (objs demo_store)(1 := [''x'' \<mapsto> 2, ''y'' \<mapsto> 2, ''z'' \<mapsto> 0]),
                next_addr = 2\<rparr>,
       instruments = [\<lparr>i_program = 0, i_name = ''eq1'',
          i_notes = [\<lparr>n_velocity = 64, n_pitch = 72, n_start = 0, n_end = 1/8\<rparr>,
                     \<lparr>n_velocity = 64, n_pitch = 74, n_start = 0, n_end = 1/8\<rparr>]\<rparr>]\<rparr>)"
proof -
  have f: "eq_expr demo_eq = ''0''" "eq_updates demo_eq = [''x = x + 1'', ''y = x'']"
    "eq_vars demo_eq = 0" "eq_start_t demo_eq = 0" "eq_name demo_eq = ''eq1''"
    "lower (eq_instr_name demo_eq) = ''piano''"
    by (simp_all add: demo_eq_def lower_def lower_char_def)
  have lp: "stepping_loop (loop_ctx (lambdify3 demo_sympy (Const 0)) ufs 1 demo_eq) s a 0 []
      = Some (store_write a (apply_limits [] (apply_updates ufs 0 (objs s a))) s,
           Inr [\<lparr>n_velocity = 64, n_pitch = 72, n_start = 0, n_end = 1/8\<rparr>,
                \<lparr>n_velocity = 64, n_pitch = 74, n_start = 0, n_end = 1/8\<rparr>])" for ufs s a
    using demo_loop [OF demo_chosen, of ufs "[]" s a]
    by (simp add: demo_eq_fields)
  show ?thesis
    by (simp add: render_equation_def f demo_parse Let_def alloc_def lp store_write_def
        demo_store_def demo_prepare_two demo_apply_two numeral_2_eq_2
        del: apply_updates.simps)
qed

lemma demo_diverges:
  "render_config demo_sympy (demo_config\<lparr>cfg_tempo := - 60\<rparr>) demo_store = None"
proof -
  have f: "eq_expr demo_eq = ''0''" by (simp add: demo_eq_def)
  let ?c = "loop_ctx (lambdify3 demo_sympy (Const 0))
      (prepare_updates demo_sympy (eq_updates demo_eq)) (- 1) demo_eq"
  have "c_dt ?c \<le> 0" "c_scale_degrees ?c \<noteq> []" "c_beat_seconds ?c \<noteq> 0"
    "eq_start_t demo_eq \<le> c_end_t ?c + 1 / 10 ^ 9"
    by (simp_all add: loop_ctx_def demo_eq_def dt_of_def demo_scale)
  then have "stepping_loop ?c s a (eq_start_t demo_eq) [] = None" for s a
    by (rule loop_diverges)
  then show ?thesis
    by (simp add: render_config_def demo_config_def render_equation_def f demo_parse
        Let_def alloc_def)
qed

lemma demo_render_config:
  "render_config demo_sympy demo_config demo_store
   = Some (Returned
      \<lparr>heap = \<lparr>objs = (objs demo_store)(1 := [''x'' \<mapsto> 2, ''y'' \<mapsto> 2, ''z'' \<mapsto> 0]),
                next_addr = 2\<rparr>,
       instruments = [\<lparr>i_program = 0, i_name = ''eq1'',
          i_notes = [\<lparr>n_velocity = 64, n_pitch = 72, n_start = 0, n_end = 1/8\<rparr>,
                     \<lparr>n_velocity = 64, n_pitch = 74, n_start = 0, n_end = 1/8\<rparr>]\<rparr>]\<rparr>)"
  by (simp add: render_config_def demo_config_def demo_render_equation)



section \<open>The step length under a negative tempo\<close>

text \<open>
  Claim C8. The step length is not always positive: at a tempo of \<open>-60\<close> beats per minute
  the beat lasts \<open>-1\<close> second and the rate \<^verbatim>\<open>1/8\<close> gives \<open>dt = -1/8\<close>; the test
  \<^verbatim>\<open>dt <= 0\<close> of lines 199 to 200 fires and assigns \<open>-1 * 0.125\<close>, negative again. The
  time of the stepping loop then only decreases and the rendering never returns.
\<close>

theorem negative_tempo_diverges:
  "dt_of (60 / (- 60)) (1/8) = - (1/8)
   \<and> render_config demo_sympy (demo_config\<lparr>cfg_tempo := - 60\<rparr>) demo_store = None"
  using demo_diverges by (simp add: dt_of_def)

section \<open>An expression with a symbol that is not allowed\<close>




section \<open>The configuration is not written\<close>

lemma render_config_frame_aux:
  assumes "render_config sy cfg s = Some out"
  shows "next_addr s \<le> next_addr (heap (outcome_state out))
    \<and> (\<forall>b < next_addr s. objs (heap (outcome_state out)) b = objs s b)"
proof (cases "cfg_tempo cfg = 0")
  case True
  then show ?thesis using assms by (auto simp: render_config_def outcome_state_def)
next
  case False
  then have "render_equations sy (60 / cfg_tempo cfg) (cfg_equations cfg)
      \<lparr>heap = s, instruments = []\<rparr> = Some out"
    using assms by (simp add: render_config_def)
  from render_equations_frame [OF this] show ?thesis by simp
qed

text \<open>
  Claim C10. Every dictionary that exists when \<^verbatim>\<open>render_config\<close> is called, the
  \<^verbatim>\<open>vars\<close> of every equation among them, holds after the call what it held before: the
  loop of an equation writes only the dictionary \<^verbatim>\<open>vars_local\<close> that the call itself
  has created for it. (The update rules, the mapping and the limits of an equation are
  values here, as the function never assigns to them.) For a positive tempo the call
  ends.
\<close>

theorem render_config_frame:
  "(render_config sy cfg s = Some out \<longrightarrow>
      next_addr s \<le> next_addr (heap (outcome_state out))
      \<and> (\<forall>b < next_addr s. objs (heap (outcome_state out)) b = objs s b))
   \<and> (0 < cfg_tempo cfg \<longrightarrow> (\<exists>out'. render_config sy cfg s = Some out'))"
  using render_config_frame_aux [of sy cfg s out] render_config_returns [of cfg sy s]
  by blast

theorem render_config_frame_witness:
  "0 < cfg_tempo demo_config
   \<and> next_addr demo_store = 1
   \<and> eq_vars demo_eq = 0
   \<and> outcome_error (the (render_config demo_sympy demo_config demo_store)) = None
   \<and> next_addr (heap (outcome_state (the (render_config demo_sympy demo_config demo_store)))) = 2
   \<and> objs (heap (outcome_state (the (render_config demo_sympy demo_config demo_store)))) 0
       = objs demo_store 0
   \<and> objs demo_store 0 = [''x'' \<mapsto> 1, ''y'' \<mapsto> 0, ''z'' \<mapsto> 0]
   \<and> objs (heap (outcome_state (the (render_config demo_sympy demo_config demo_store)))) 1
       = [''x'' \<mapsto> 2, ''y'' \<mapsto> 2, ''z'' \<mapsto> 0]"
proof -
  let ?out = "the (render_config demo_sympy demo_config demo_store)"
  have run: "render_config demo_sympy demo_config demo_store = Some ?out"
    by (simp add: demo_render_config)
  have tempo: "0 < cfg_tempo demo_config" by (simp add: demo_config_def)
  from render_config_frame [of demo_sympy demo_config demo_store ?out] run tempo
  have kept: "\<forall>b < next_addr demo_store. objs (heap (outcome_state ?out)) b = objs demo_store b"
    by blast
  have n: "next_addr demo_store = 1" by (simp add: demo_store_def)
  have zero: "objs (heap (outcome_state ?out)) 0 = objs demo_store 0"
    using kept n by simp
  have rest: "outcome_error ?out = None"
    "next_addr (heap (outcome_state ?out)) = 2"
    "objs (heap (outcome_state ?out)) 1 = [''x'' \<mapsto> 2, ''y'' \<mapsto> 2, ''z'' \<mapsto> 0]"
    by (simp_all add: demo_render_config outcome_error_def outcome_state_def)
  have start: "eq_vars demo_eq = 0"
    "objs demo_store 0 = [''x'' \<mapsto> 1, ''y'' \<mapsto> 0, ''z'' \<mapsto> 0]"
    by (simp_all add: demo_eq_def demo_store_def)
  show ?thesis
    using tempo n zero rest start by simp
qed

end
